theory Spec2Isabelle
  imports Complex_Main
begin

section \<open>Data model of \<open>page-handler.js\<close>\<close>

text \<open>
  The class \<open>PageHandler\<close> handles one fetched page. Its methods mutate the shared set of
  discovered ids (\<open>globalContext.zpids\<close>), the handler's own fields (\<open>anyErrors\<close>, its copy
  of \<open>maxZpidsFound\<close>), the session, the request queue and the shared array
  \<open>cleanStartUrls\<close>, and they call collaborators that live outside the two source files.
  The model threads one record of all mutable state through every method and takes the
  collaborators as fields of an environment record. Logging, the debug-only \<open>dump\<close> and
  the 10 second progress timer are not modelled.
\<close>

datatype error =
    NotZpid                 \<comment> \<open>\<open>Error('Zpid not string or number')\<close>\<close>
  | InvalidNonNumeric       \<comment> \<open>\<open>Error('Invalid non-numeric zpid')\<close>\<close>
  | SessionNotUsable        \<comment> \<open>\<open>Error('Not trying to retrieve data, session is not usable anymore')\<close>\<close>
  | ExtractionFailed        \<comment> \<open>whatever \<open>queryZpid\<close>, \<open>JSON.parse\<close> or \<open>extendOutputFunction\<close> throws\<close>
  | InvalidURL              \<comment> \<open>\<open>TypeError\<close> of \<open>new URL(...)\<close>\<close>
  | ReduceOfEmptyArray      \<comment> \<open>\<open>TypeError: Reduce of empty array with no initial value\<close>\<close>
  | NoMapResults int        \<comment> \<open>\<open>Error(`No map results but result count is ${totalCount}`)\<close>\<close>
  | RetryingSearch          \<comment> \<open>\<open>Error('Retrying search')\<close>\<close>

datatype label = DETAIL | QUERY

text \<open>
  The three shapes of URL the handler builds: a reference resolved against
  \<open>https://www.zillow.com\<close>, the page's URL with \<open>searchQueryState\<close> set to the query state
  extended by \<open>pagination: {currentPage: i}\<close>, and the page's URL with \<open>searchQueryState\<close>
  set to a split and \<open>pagination\<close> set to \<open>'{}'\<close>.
\<close>

datatype 'qs url = ZillowUrl string | PaginationUrl 'qs nat | MapSplitUrl 'qs

text \<open>
  One argument of \<open>requestQueue.addRequest\<close>, and also the request a page was fetched for.
  \<open>userZpid\<close> is \<open>userData.zpid\<close> (the source stores \<open>+zpid\<close>; the model keeps the id's text).
\<close>

record 'qs request =
  url :: "'qs url"
  label :: label
  userZpid :: "string option"
  searchQueryState :: "'qs option"
  pageNumber :: "nat option"
  splitCount :: "nat option"
  uniqueKey :: string
  forefront :: bool

text \<open>The session is a collaborator; the model records the calls made on it.\<close>

record session =
  markedBad :: nat
  retired :: bool

text \<open>
  One element of the result arrays. A missing or falsy \<open>zpid\<close> or \<open>detailUrl\<close> is the empty
  string (the source only tests them for truthiness); every record carries an address.
\<close>

record result =
  zpid :: string
  detailUrl :: string
  address :: string

text \<open>An element of what \<open>cos.sortMatch\<close> returns.\<close>

record comparison =
  member_str :: string
  index :: nat
  rating :: rat

text \<open>A result after the matching loop has set \<open>match\<close> and \<open>baseUrl\<close> on it.\<close>

record matched_result =
  result :: result
  match :: comparison
  baseUrl :: string

text \<open>An element of \<open>cleanStartUrls\<close>; \<open>matched\<close> is false while the property is absent.\<close>

record start_url =
  su_url :: string
  matched :: bool

text \<open>The two bodies posted to the reporting endpoint.\<close>

datatype post = UpdateResults "matched_result list" | NoDetailMatch string

text \<open>
  All mutable state a pass touches. \<open>zpids\<close> is the JS \<open>Set\<close> in insertion order (no
  duplicates; its size is the length). \<open>requestQueue\<close>, \<open>queried\<close>, \<open>outputs\<close> and
  \<open>posted\<close> are the calls made so far to \<open>requestQueue.addRequest\<close>, \<open>queryZpid\<close>,
  \<open>extendOutputFunction\<close> and \<open>axios.post\<close>; \<open>slept\<close> is the total of \<open>sleep\<close> in ms.
\<close>

record 'qs world =
  zpids :: "string list"
  maxZpidsFound :: int
  anyErrors :: bool
  session :: session
  requestQueue :: "'qs request list"
  queried :: "string list"
  outputs :: "string list"
  slept :: nat
  posted :: "post list"
  cleanStartUrls :: "start_url list"

text \<open>
  The input and the collaborators. \<open>maxItems\<close> is \<open>Some m\<close> when
  \<open>typeof input.maxItems === 'number'\<close>. \<open>RESULTS_LIMIT\<close> and \<open>PAGES_LIMIT\<close> are constants of
  \<open>./constants\<close>, \<open>splitQueryState\<close> and \<open>quickHash\<close> functions of \<open>./functions\<close>
  (\<open>quickHash\<close> here takes the query state and stands for
  \<open>quickHash(JSON.stringify(searchQueryState))\<close>), none of them under \<open>src/\<close>.
  \<open>isNumeric zpid\<close> is the JS test \<open>+zpid == zpid\<close>; \<open>queryZpid n zpid\<close> is the value of
  \<open>JSON.parse(await queryZpid(page, zpid)).data.property\<close> at the \<open>n\<close>-th query, \<open>None\<close>
  when that throws; \<open>extendOutputFunction p zpid ids\<close> tells whether the call returned
  normally and which ids it added to the set; \<open>urlParses\<close> tells whether \<open>new URL(ref,
  'https://www.zillow.com')\<close> succeeds; \<open>similarity\<close> is the score of the
  \<open>string-comparison\<close> library's cosine measure.
\<close>

record ('qs, 'p) env =
  maxItems :: "int option"
  maxLevel :: "int option"
  splitThreshold :: "int option"
  RESULTS_LIMIT :: int
  PAGES_LIMIT :: int
  isNumeric :: "string \<Rightarrow> bool"
  isUsable :: "session \<Rightarrow> bool"
  queryZpid :: "nat \<Rightarrow> string \<Rightarrow> 'p option"
  extendOutputFunction :: "'p \<Rightarrow> string \<Rightarrow> string list \<Rightarrow> bool \<times> string list"
  urlParses :: "string \<Rightarrow> bool"
  splitQueryState :: "'qs \<Rightarrow> 'qs list"
  quickHash :: "'qs \<Rightarrow> string"
  similarity :: "string \<Rightarrow> string \<Rightarrow> rat"

section \<open>The dedup store and the item cap\<close>

definition has :: "string list \<Rightarrow> string \<Rightarrow> bool" where
  "has ids z = (z \<in> set ids)"

definition add :: "string list \<Rightarrow> string \<Rightarrow> string list" where
  "add ids z = (if z \<in> set ids then ids else ids @ [z])"

definition size_of :: "string list \<Rightarrow> int" where
  "size_of ids = int (length ids)"

text \<open>\<open>isOverItems(extra = 0)\<close>, always called without argument.\<close>

definition isOverItems :: "('qs, 'p) env \<Rightarrow> 'qs world \<Rightarrow> bool" where
  "isOverItems e s =
     (case maxItems e of
        Some m \<Rightarrow> (if m > 0 then size_of (zpids s) + 0 \<ge> m else False)
      | None \<Rightarrow> False)"

section \<open>\<open>processZpid\<close>\<close>

definition sleep :: "nat \<Rightarrow> 'qs world \<Rightarrow> 'qs world" where
  "sleep ms s = s\<lparr>slept := slept s + ms\<rparr>"

definition markBad :: "session \<Rightarrow> session" where
  "markBad ss = ss\<lparr>markedBad := Suc (markedBad ss)\<rparr>"

definition retire :: "session \<Rightarrow> session" where
  "retire ss = ss\<lparr>retired := True\<rparr>"

definition addRequest :: "'qs request \<Rightarrow> 'qs world \<Rightarrow> 'qs world" where
  "addRequest r s = s\<lparr>requestQueue := requestQueue s @ [r]\<rparr>"

text \<open>How the \<open>try\<close> block ends: it runs to its end, returns early after setting \<open>noWait\<close>, or throws.\<close>

datatype try_end = Completed | Returned | Thrown error

definition tryBlock :: "('qs, 'p) env \<Rightarrow> string \<Rightarrow> 'qs world \<Rightarrow> try_end \<times> 'qs world" where
  "tryBlock e z s =
     (if z = [] then (Thrown NotZpid, s)
      else if \<not> isNumeric e z then (Thrown InvalidNonNumeric, s)
      else if has (zpids s) z then (Returned, s)
      else if \<not> isUsable e (session s) then (Thrown SessionNotUsable, s)
      else
        let s1 = s\<lparr>queried := queried s @ [z]\<rparr> in
        (case queryZpid e (length (queried s)) z of
           None \<Rightarrow> (Thrown ExtractionFailed, s1)
         | Some p \<Rightarrow>
             (case extendOutputFunction e p z (zpids s1) of
                (ok, added) \<Rightarrow>
                  (if ok then Completed else Thrown ExtractionFailed,
                   s1\<lparr>zpids := foldl add (zpids s1) added, outputs := outputs s1 @ [z]\<rparr>))))"

text \<open>The fallback request of the \<open>catch\<close> block.\<close>

definition fallbackRef :: "string \<Rightarrow> string \<Rightarrow> string" where
  "fallbackRef z du = (if du \<noteq> [] then du else ''/homedetails/'' @ z @ ''_zpid/'')"

definition fallbackRequest :: "string \<Rightarrow> string \<Rightarrow> 'qs request" where
  "fallbackRequest z du =
     \<lparr>url = ZillowUrl (fallbackRef z du), label = DETAIL, userZpid = Some z,
      searchQueryState = None, pageNumber = None, splitCount = None,
      uniqueKey = (if z \<noteq> [] then z else du), forefront = True\<rparr>"

text \<open>The \<open>catch\<close> block: what the method does next, the value of \<open>noWait\<close>, and the state.\<close>

definition catchBlock ::
  "('qs, 'p) env \<Rightarrow> string \<Rightarrow> string \<Rightarrow> error \<Rightarrow> 'qs world \<Rightarrow> (error + unit) \<times> bool \<times> 'qs world" where
  "catchBlock e z du err s =
     (if isOverItems e s then (Inr (), False, s)
      else if err \<in> {NotZpid, InvalidNonNumeric} then (Inr (), True, s)
      else if \<not> urlParses e (fallbackRef z du) then (Inl InvalidURL, False, s)
      else (Inr (), False,
            (addRequest (fallbackRequest z du) s)
              \<lparr>anyErrors := True, session := markBad (session s)\<rparr>))"

definition processZpid ::
  "('qs, 'p) env \<Rightarrow> string \<Rightarrow> string \<Rightarrow> 'qs world \<Rightarrow> (error + unit) \<times> 'qs world" where
  "processZpid e z du s =
     (if isOverItems e s then (Inr (), s)
      else
        (case tryBlock e z s of
           (Completed, s') \<Rightarrow> (Inr (), sleep 100 s')
         | (Returned, s') \<Rightarrow> (Inr (), s')
         | (Thrown err, s') \<Rightarrow>
             (case catchBlock e z du err s' of
                (r, noWait, s'') \<Rightarrow> (r, if noWait then s'' else sleep 100 s''))))"

section \<open>Batches\<close>

text \<open>
  The \<open>for\<close> loop of \<open>_extractZpidsFromResults\<close>: an exception of \<open>processZpid\<close> leaves
  the loop, and the loop breaks as soon as the cap is reached.
\<close>

fun extractLoop ::
  "('qs, 'p) env \<Rightarrow> result list \<Rightarrow> 'qs world \<Rightarrow> (error + unit) \<times> 'qs world" where
  "extractLoop e [] s = (Inr (), s)"
| "extractLoop e (r # rs) s =
     (if zpid r \<noteq> [] then
        (case processZpid e (zpid r) (detailUrl r) s of
           (Inl err, s') \<Rightarrow> (Inl err, s')
         | (Inr u, s') \<Rightarrow> (if isOverItems e s' then (Inr (), s') else extractLoop e rs s'))
      else extractLoop e rs s)"

definition extractZpidsFromResults ::
  "('qs, 'p) env \<Rightarrow> result list \<Rightarrow> 'qs world \<Rightarrow> (error + unit) \<times> 'qs world" where
  "extractZpidsFromResults e results s =
     (if length results > 0 then extractLoop e results s else (Inr (), s))"

text \<open>\<open>handleZpidsPage\<close>, over \<open>input.zpids\<close>.\<close>

fun handleZpidsPage ::
  "('qs, 'p) env \<Rightarrow> string list \<Rightarrow> 'qs world \<Rightarrow> (error + unit) \<times> 'qs world" where
  "handleZpidsPage e [] s = (Inr (), s)"
| "handleZpidsPage e (z # zs) s =
     (case processZpid e z [] s of
        (Inl err, s') \<Rightarrow> (Inl err, s')
      | (Inr u, s') \<Rightarrow> (if isOverItems e s' then (Inr (), s') else handleZpidsPage e zs s'))"

text \<open>\<open>_processPageQsResults\<close>: the value returned is \<open>shouldContinue\<close>.\<close>

fun processPageQsResults ::
  "('qs, 'p) env \<Rightarrow> result list \<Rightarrow> 'qs world \<Rightarrow> (error + bool) \<times> 'qs world" where
  "processPageQsResults e [] s = (Inr True, s)"
| "processPageQsResults e (r # rs) s =
     (if zpid r \<noteq> [] then
        (if isOverItems e s then (Inr False, s)
         else
           (case processZpid e (zpid r) (detailUrl r) s of
              (Inl err, s') \<Rightarrow> (Inl err, s')
            | (Inr u, s') \<Rightarrow> processPageQsResults e rs s'))
      else processPageQsResults e rs s)"

section \<open>Address matching\<close>

text \<open>
  \<open>cos.sortMatch(thanos, avengers)\<close> of the \<open>string-comparison\<close> library: every target
  with its position and score, sorted by ascending score. JS sorting is stable, as
  \<open>sort_key\<close> is.
\<close>

definition sortMatch :: "(string \<Rightarrow> string \<Rightarrow> rat) \<Rightarrow> string \<Rightarrow> string list \<Rightarrow> comparison list" where
  "sortMatch sim thanos avengers =
     sort_key rating
       (map (\<lambda>(i, str). \<lparr>member_str = str, index = i, rating = sim thanos str\<rparr>)
          (enumerate 0 avengers))"

text \<open>\<open>x.split(' ')[0]\<close>.\<close>

definition firstToken :: "string \<Rightarrow> string" where
  "firstToken x = takeWhile (\<lambda>c. c \<noteq> CHR '' '') x"

text \<open>\<open>url.split('/').pop().replace(/-/g, ' ')\<close>.\<close>

definition lastSegment :: "string \<Rightarrow> string" where
  "lastSegment u = rev (takeWhile (\<lambda>c. c \<noteq> CHR ''/'') (rev u))"

definition dashesToSpaces :: "string \<Rightarrow> string" where
  "dashesToSpaces x = map (\<lambda>c. if c = CHR ''-'' then CHR '' '' else c) x"

definition startUrlAddresses :: "start_url list \<Rightarrow> string list" where
  "startUrlAddresses csu = map (\<lambda>c. dashesToSpaces (lastSegment (su_url c))) csu"

text \<open>The callback of \<open>comparison.filter\<close>.\<close>

definition qualifies :: "result \<Rightarrow> comparison \<Rightarrow> bool" where
  "qualifies r f = (rating f \<ge> 9 / 10 \<and> firstToken (address r) = firstToken (member_str f))"

text \<open>\<open>Array.prototype.reduce\<close> without an initial value.\<close>

definition reduce :: "('a \<Rightarrow> 'a \<Rightarrow> 'a) \<Rightarrow> 'a list \<Rightarrow> error + 'a" where
  "reduce f xs = (case xs of [] \<Rightarrow> Inl ReduceOfEmptyArray | x # ys \<Rightarrow> Inr (foldl f x ys))"

text \<open>The two reducer callbacks.\<close>

definition higherRating :: "comparison \<Rightarrow> comparison \<Rightarrow> comparison" where
  "higherRating prev current = (if rating prev > rating current then prev else current)"

definition higherMatch :: "matched_result \<Rightarrow> matched_result \<Rightarrow> matched_result" where
  "higherMatch prev current =
     (if rating (match prev) > rating (match current) then prev else current)"

text \<open>\<open>matchedComparisons\<close> for one result: the targets scored against its address, filtered.\<close>

definition matchedComparisons ::
  "(string \<Rightarrow> string \<Rightarrow> rat) \<Rightarrow> string list \<Rightarrow> result \<Rightarrow> comparison list" where
  "matchedComparisons sim su r = filter (qualifies r) (sortMatch sim (address r) su)"

text \<open>
  The loop over the results: it collects \<open>filteredResults\<close> and sets \<open>matched\<close> on the
  shared \<open>cleanStartUrls\<close>. The reduction runs on a non-empty array there, so it is the fold
  from the first element. \<open>match.index\<close> is a position of \<open>su\<close>, which is as long as
  \<open>cleanStartUrls\<close>.
\<close>

fun matchLoop ::
  "(string \<Rightarrow> string \<Rightarrow> rat) \<Rightarrow> string list \<Rightarrow> result list \<Rightarrow> start_url list \<Rightarrow>
   matched_result list \<times> start_url list" where
  "matchLoop sim su [] csu = ([], csu)"
| "matchLoop sim su (r # rs) csu =
     (case matchedComparisons sim su r of
        [] \<Rightarrow> matchLoop sim su rs csu
      | c # cs \<Rightarrow>
          (let m = foldl higherRating c cs;
               b = su_url (csu ! index m);
               csu' = csu[index m := (csu ! index m)\<lparr>matched := True\<rparr>]
           in (case matchLoop sim su rs csu' of
                 (frs, csu'') \<Rightarrow> (\<lparr>result = r, match = m, baseUrl = b\<rparr> # frs, csu''))))"

section \<open>Query states\<close>

record searchResults =
  mapResults :: "result list"
  listResults :: "result list"

text \<open>\<open>cat1\<close> and \<open>cat2\<close>; an absent part is a pair of empty arrays (\<open>?? []\<close>).\<close>

record cats =
  cat1 :: searchResults
  cat2 :: searchResults

record 'qs query_state =
  qs :: 'qs
  searchState :: cats

record 'qs category_extract =
  state :: "'qs query_state"
  totalCount :: int

text \<open>What \<open>_extractQueryStatesForCurrentPage\<close> returns.\<close>

record 'qs extracted =
  ex_state :: "'qs query_state list"
  ex_totalCount :: int

definition getPageQsResults :: "cats \<Rightarrow> result list" where
  "getPageQsResults pageQs =
     listResults (cat1 pageQs) @ mapResults (cat1 pageQs) @
     listResults (cat2 pageQs) @ mapResults (cat2 pageQs)"

definition mergeListResultsMapResults :: "'qs query_state list \<Rightarrow> result list" where
  "mergeListResultsMapResults queryStates =
     concat (map (\<lambda>q. mapResults (cat1 (searchState q)) @ listResults (cat1 (searchState q)) @
                       mapResults (cat2 (searchState q)) @ listResults (cat2 (searchState q)))
               queryStates)"

text \<open>\<open>request.userData.pageNumber ? request.userData.pageNumber : 1\<close>, and \<open>pageNumber || 1\<close>.\<close>

definition currentPageOf :: "'qs request \<Rightarrow> nat" where
  "currentPageOf rq = (case pageNumber rq of None \<Rightarrow> 1 | Some n \<Rightarrow> (if n = 0 then 1 else n))"

text \<open>
  \<open>_extractQueryStatesForCurrentPage\<close>, given what \<open>extractQueryStates\<close> (of
  \<open>./functions\<close>) returned for the page.
\<close>

definition extractQueryStatesForCurrentPage ::
  "'qs request \<Rightarrow> 'qs category_extract list \<Rightarrow> 'qs world \<Rightarrow> 'qs extracted \<times> 'qs world" where
  "extractQueryStatesForCurrentPage rq states s =
     (let sumTotalCount = foldl (\<lambda>out c. out + totalCount c) 0 states
      in (\<lparr>ex_state = map state states, ex_totalCount = sumTotalCount\<rparr>,
          s\<lparr>maxZpidsFound := max sumTotalCount (maxZpidsFound s)\<rparr>))"

text \<open>
  \<open>_validateQueryStatesResults\<close>: \<open>Inr False\<close> is the returned \<open>false\<close>, \<open>Inr True\<close> the
  \<open>undefined\<close> of falling off the end.
\<close>

definition validateQueryStatesResults ::
  "'a list \<Rightarrow> int \<Rightarrow> 'qs world \<Rightarrow> (error + bool) \<times> 'qs world" where
  "validateQueryStatesResults results tCount s =
     (if length results = 0 then
        (if tCount > 0 then (Inl (NoMapResults tCount), s\<lparr>session := retire (session s)\<rparr>)
         else (Inr False, s))
      else (Inr True, s))"

section \<open>Map splits and pagination\<close>

definition splitRequest :: "('qs, 'p) env \<Rightarrow> 'qs \<Rightarrow> nat \<Rightarrow> 'qs request" where
  "splitRequest e sqs sc =
     \<lparr>url = MapSplitUrl sqs, label = QUERY, userZpid = None, searchQueryState = Some sqs,
      pageNumber = None, splitCount = Some sc, uniqueKey = quickHash e sqs, forefront = False\<rparr>"

fun enqueueMapSplits :: "('qs, 'p) env \<Rightarrow> 'qs list \<Rightarrow> nat \<Rightarrow> 'qs world \<Rightarrow> 'qs world" where
  "enqueueMapSplits e [] sc s = s"
| "enqueueMapSplits e (sqs # splits) sc s =
     (if isOverItems e s then s
      else enqueueMapSplits e splits sc (addRequest (splitRequest e sqs sc) s))"

text \<open>\<open>input.splitThreshold || RESULTS_LIMIT\<close>.\<close>

definition mapSplittingThreshold :: "('qs, 'p) env \<Rightarrow> int" where
  "mapSplittingThreshold e =
     (case splitThreshold e of
        None \<Rightarrow> RESULTS_LIMIT e
      | Some t \<Rightarrow> (if t = 0 then RESULTS_LIMIT e else t))"

text \<open>\<open>request.userData.splitCount ?? 0\<close> and \<open>input.maxLevel ?? 5\<close>.\<close>

definition currentSplitCount :: "'qs request \<Rightarrow> nat" where
  "currentSplitCount rq = (case splitCount rq of None \<Rightarrow> 0 | Some c \<Rightarrow> c)"

definition maxLevelOf :: "('qs, 'p) env \<Rightarrow> int" where
  "maxLevelOf e = (case maxLevel e of None \<Rightarrow> 5 | Some l \<Rightarrow> l)"

definition tryEnqueueMapSplits ::
  "('qs, 'p) env \<Rightarrow> 'qs request \<Rightarrow> 'qs \<Rightarrow> int \<Rightarrow> 'qs world \<Rightarrow> 'qs world" where
  "tryEnqueueMapSplits e rq queryState tCount s =
     (if tCount \<ge> mapSplittingThreshold e then
        (if int (currentSplitCount rq) \<ge> maxLevelOf e then s
         else enqueueMapSplits e (splitQueryState e queryState) (currentSplitCount rq + 1) s)
      else s)"

definition paginationRequest :: "('qs, 'p) env \<Rightarrow> 'qs \<Rightarrow> nat \<Rightarrow> 'qs request" where
  "paginationRequest e sqs i =
     \<lparr>url = PaginationUrl sqs i, label = QUERY, userZpid = None, searchQueryState = Some sqs,
      pageNumber = Some i, splitCount = None, uniqueKey = quickHash e sqs, forefront = False\<rparr>"

text \<open>
  The loop \<open>for (let i = 2; i <= pagesCount; i++)\<close>. \<open>pagesCount\<close> is not an integer in
  general; JS numbers are modelled as exact rationals.
\<close>

function paginationLoop ::
  "('qs, 'p) env \<Rightarrow> 'qs \<Rightarrow> rat \<Rightarrow> nat \<Rightarrow> 'qs world \<Rightarrow> 'qs world" where
  "paginationLoop e sqs pagesCount i s =
     (if of_nat i \<le> pagesCount
      then paginationLoop e sqs pagesCount (i + 1) (addRequest (paginationRequest e sqs i) s)
      else s)"
  by pat_completeness auto
termination
proof (relation "measure (\<lambda>(e, sqs, pagesCount, i, s). nat \<lfloor>pagesCount\<rfloor> + 1 - i)")
  show "wf (measure (\<lambda>(e :: ('qs, 'p) env, sqs :: 'qs, pagesCount :: rat, i :: nat, s :: 'qs world).
              nat \<lfloor>pagesCount\<rfloor> + 1 - i))"
    by simp
next
  fix e :: "('qs, 'p) env" and sqs :: 'qs and pagesCount :: rat and i :: nat and s :: "'qs world"
  assume "of_nat i \<le> pagesCount"
  then have "int i \<le> \<lfloor>pagesCount\<rfloor>"
    by (simp add: le_floor_iff)
  then show "((e, sqs, pagesCount, i + 1, addRequest (paginationRequest e sqs i) s),
              (e, sqs, pagesCount, i, s))
             \<in> measure (\<lambda>(e, sqs, pagesCount, i, s). nat \<lfloor>pagesCount\<rfloor> + 1 - i)"
    by simp
qed

declare paginationLoop.simps [simp del]

definition LISTINGS_PER_PAGE :: rat where
  "LISTINGS_PER_PAGE = 40"

definition tryEnqueuePaginationPages ::
  "('qs, 'p) env \<Rightarrow> 'qs \<Rightarrow> int \<Rightarrow> 'qs world \<Rightarrow> 'qs world" where
  "tryEnqueuePaginationPages e searchQueryState' tCount s =
     (if tCount > 0 \<and> size_of (zpids s) < maxZpidsFound s then
        paginationLoop e searchQueryState'
          (min ((of_int tCount / LISTINGS_PER_PAGE) + 1) (of_int (PAGES_LIMIT e))) 2 s
      else s)"

section \<open>Handling a query or search page\<close>

text \<open>
  The loop \<open>for (const { qs } of queryStates)\<close> at the end of
  \<open>_processExtractedQueryStates\<close>; its first test returns from the whole method.
\<close>

fun queryStatesLoop ::
  "('qs, 'p) env \<Rightarrow> 'qs request \<Rightarrow> int \<Rightarrow> result list \<Rightarrow> 'qs query_state list \<Rightarrow>
   'qs world \<Rightarrow> (error + unit) \<times> 'qs world" where
  "queryStatesLoop e rq tCount results [] s = (Inr (), s)"
| "queryStatesLoop e rq tCount results (q # rest) s =
     (if size_of (zpids s) \<ge> maxZpidsFound s then (Inr (), s)
      else
        (let s1 = (if currentPageOf rq = 1
                   then tryEnqueuePaginationPages e (qs q) tCount
                          (tryEnqueueMapSplits e rq (qs q) tCount s)
                   else s)
         in (case extractZpidsFromResults e results s1 of
               (Inl err, s2) \<Rightarrow> (Inl err, s2)
             | (Inr u, s2) \<Rightarrow> queryStatesLoop e rq tCount results rest s2)))"

text \<open>
  The start URLs reported as unmatched: \<open>cleanStartUrls.filter((f) => !results.find((r) =>
  r?.baseUrl === f.url || f?.matched))\<close>.
\<close>

definition reducedStartUrls :: "matched_result list \<Rightarrow> start_url list \<Rightarrow> start_url list" where
  "reducedStartUrls results csu =
     filter (\<lambda>f. find (\<lambda>r. baseUrl r = su_url f \<or> matched f) results = None) csu"

text \<open>
  The first part of \<open>_processExtractedQueryStates\<close>, up to the assignment of the
  one-element array to \<open>results\<close>: the matching loop, then the reduction of
  \<open>filteredResults\<close> (which throws on the empty array). It returns \<open>cleanStartUrls\<close> as
  the loop left it.
\<close>

definition selectBestMatch ::
  "(string \<Rightarrow> string \<Rightarrow> rat) \<Rightarrow> result list \<Rightarrow> start_url list \<Rightarrow>
   (error + matched_result) \<times> start_url list" where
  "selectBestMatch sim results csu =
     (case matchLoop sim (startUrlAddresses csu) results csu of
        (filteredResults, csu') \<Rightarrow> (reduce higherMatch filteredResults, csu'))"

text \<open>
  \<open>_processExtractedQueryStates\<close>. Everything after the selection uses the one-element
  array; the third argument of \<open>_validateQueryStatesResults\<close> is \<open>results.length\<close>.
\<close>

definition processExtractedQueryStates ::
  "('qs, 'p) env \<Rightarrow> 'qs request \<Rightarrow> 'qs query_state list \<Rightarrow> int \<Rightarrow> 'qs world \<Rightarrow>
   (error + unit) \<times> 'qs world" where
  "processExtractedQueryStates e rq queryStates tCount s =
     (case selectBestMatch (similarity e) (mergeListResultsMapResults queryStates)
             (cleanStartUrls s) of
        (Inl err, csu) \<Rightarrow> (Inl err, s\<lparr>cleanStartUrls := csu\<rparr>)
      | (Inr best, csu) \<Rightarrow>
          (let results = [best];
               s1 = s\<lparr>cleanStartUrls := csu\<rparr>;
               s2 = s1\<lparr>posted := posted s1 @ [UpdateResults results]\<rparr>;
               s3 = s2\<lparr>posted := posted s2 @
                       map (\<lambda>rSU. NoDetailMatch (su_url rSU)) (reducedStartUrls results csu)\<rparr>
           in (case validateQueryStatesResults results (int (length results)) s3 of
                 (Inl err, s4) \<Rightarrow> (Inl err, s4)
               | (Inr False, s4) \<Rightarrow> (Inr (), s4)
               | (Inr True, s4) \<Rightarrow>
                   queryStatesLoop e rq tCount (map result results) queryStates s4)))"

text \<open>
  What the fetched page holds: the embedded store read by \<open>_getPageQs\<close> (\<open>None\<close> when
  waiting for or reading the page throws) and the answer of \<open>extractQueryStates\<close>
  (\<open>None\<close> when it throws).
\<close>

record 'qs page =
  pageQs :: "cats option"
  extractedQueryStates :: "'qs category_extract list option"

definition retireAndRetry :: "'qs world \<Rightarrow> (error + unit) \<times> 'qs world" where
  "retireAndRetry s = (Inl RetryingSearch, s\<lparr>session := retire (session s)\<rparr>)"

definition handleQueryAndSearchPage ::
  "('qs, 'p) env \<Rightarrow> 'qs request \<Rightarrow> 'qs page \<Rightarrow> 'qs world \<Rightarrow> (error + unit) \<times> 'qs world" where
  "handleQueryAndSearchPage e rq pg s =
     (case pageQs pg of
        None \<Rightarrow> retireAndRetry s
      | Some pq \<Rightarrow>
          (case processPageQsResults e (getPageQsResults pq) s of
             (Inl err, s1) \<Rightarrow> retireAndRetry s1
           | (Inr shouldContinue, s1) \<Rightarrow>
               (if shouldContinue then
                  (case extractedQueryStates pg of
                     None \<Rightarrow> retireAndRetry s1
                   | Some states \<Rightarrow>
                       (case extractQueryStatesForCurrentPage rq states s1 of
                          (ex, s2) \<Rightarrow>
                            (if length (ex_state ex) > 0
                             then processExtractedQueryStates e rq (ex_state ex) (ex_totalCount ex) s2
                             else (Inr (), s2))))
                else (Inr (), s1))))"

section \<open>The host's queue\<close>

text \<open>
  The request queue is the host's, not part of the two source files. What the handler
  relies on, and \<open>handleDetailPage\<close> reads back as \<open>rq.wasAlreadyPresent\<close>: a request
  whose \<open>uniqueKey\<close> the queue has already accepted is not added again, and a
  \<open>forefront\<close> request is put first. \<open>hostQueue\<close> is the queue's content after a
  sequence of \<open>addRequest\<close> calls.
\<close>

definition hostAdd :: "'qs request list \<Rightarrow> 'qs request \<Rightarrow> 'qs request list" where
  "hostAdd accepted r =
     (if uniqueKey r \<in> set (map uniqueKey accepted) then accepted
      else if forefront r then r # accepted else accepted @ [r])"

definition hostQueue :: "'qs request list \<Rightarrow> 'qs request list" where
  "hostQueue calls = foldl hostAdd [] calls"

section \<open>The pagination formula as the specification words it\<close>

text \<open>\<open>pagesCount = min(ceil(totalCount / pageSize) + 1, pagesLimit)\<close> with page size 40.\<close>

definition spec_pagesCount :: "int \<Rightarrow> int \<Rightarrow> int" where
  "spec_pagesCount tCount pagesLimit = min (\<lceil>(of_int tCount :: rat) / 40\<rceil> + 1) pagesLimit"

section \<open>A concrete environment\<close>

text \<open>
  Collaborators for running the model on examples: ids are numeric when they are digit
  strings, every query and every output call succeeds and adds the id, identical strings
  score 1 and different ones 0, a query state is a string, and the limits are 500 results
  and 20 pages.
\<close>

definition digitString :: "string \<Rightarrow> bool" where
  "digitString z = (z \<noteq> [] \<and> list_all (\<lambda>c. c \<in> set ''0123456789'') z)"

definition exactScore :: "string \<Rightarrow> string \<Rightarrow> rat" where
  "exactScore a b = (if a = b then 1 else 0)"

definition freshSession :: session where
  "freshSession = \<lparr>markedBad = 0, retired = False\<rparr>"

definition demoEnv :: "(string, string) env" where
  "demoEnv =
     \<lparr>maxItems = None, maxLevel = None, splitThreshold = None,
      RESULTS_LIMIT = 500, PAGES_LIMIT = 20,
      isNumeric = digitString,
      isUsable = (\<lambda>ss. markedBad ss = 0 \<and> retired ss = False),
      queryZpid = (\<lambda>n z. Some z),
      extendOutputFunction = (\<lambda>p z ids. (True, [z])),
      urlParses = (\<lambda>ref. True),
      splitQueryState = (\<lambda>q. [q @ ''/nw'', q @ ''/ne'', q @ ''/sw'', q @ ''/se'']),
      quickHash = (\<lambda>q. q),
      similarity = exactScore\<rparr>"

definition emptyWorld :: "string world" where
  "emptyWorld =
     \<lparr>zpids = [], maxZpidsFound = 0, anyErrors = False, session = freshSession,
      requestQueue = [], queried = [], outputs = [], slept = 0, posted = [],
      cleanStartUrls = []\<rparr>"

definition firstPageRequest :: "string request" where
  "firstPageRequest =
     \<lparr>url = ZillowUrl ''/homes/'', label = QUERY, userZpid = None, searchQueryState = None,
      pageNumber = None, splitCount = None, uniqueKey = ''start'', forefront = False\<rparr>"

definition noResults :: searchResults where
  "noResults = \<lparr>mapResults = [], listResults = []\<rparr>"

definition mainSt :: result where
  "mainSt = \<lparr>zpid = ''1'', detailUrl = ''/homedetails/1_zpid/'', address = ''100 Main St''\<rparr>"

definition oakAve :: result where
  "oakAve = \<lparr>zpid = ''2'', detailUrl = ''/homedetails/2_zpid/'', address = ''200 Oak Ave''\<rparr>"

definition cappedEnv :: "(string, string) env" where
  "cappedEnv = demoEnv\<lparr>maxItems := Some 2\<rparr>"

definition twoFound :: "string world" where
  "twoFound = emptyWorld\<lparr>zpids := [''1'', ''2'']\<rparr>"

definition failingEnv :: "(string, string) env" where
  "failingEnv = demoEnv\<lparr>queryZpid := (\<lambda>n z. None)\<rparr>"

definition unusableEnv :: "(string, string) env" where
  "unusableEnv = demoEnv\<lparr>isUsable := (\<lambda>ss. False)\<rparr>"

definition failedOnce :: "string world" where
  "failedOnce = emptyWorld\<lparr>anyErrors := True, session := \<lparr>markedBad = 1, retired = False\<rparr>,
     requestQueue := [fallbackRequest ''3'' []], queried := [''3''], slept := 100\<rparr>"

definition failedTwice :: "string world" where
  "failedTwice = emptyWorld\<lparr>anyErrors := True, session := \<lparr>markedBad = 2, retired = False\<rparr>,
     requestQueue := [fallbackRequest ''3'' [], fallbackRequest ''3'' ''/b/some-building/''],
     queried := [''3''], slept := 200\<rparr>"

definition fellBack :: "string world" where
  "fellBack = emptyWorld\<lparr>anyErrors := True, session := \<lparr>markedBad = 1, retired = False\<rparr>,
     requestQueue := [fallbackRequest ''3'' []], slept := 100\<rparr>"

definition hundredExpected :: "string world" where
  "hundredExpected = emptyWorld\<lparr>maxZpidsFound := 100\<rparr>"

definition splitPageRequest :: "string request" where
  "splitPageRequest =
     \<lparr>url = MapSplitUrl ''q/nw'', label = QUERY, userZpid = None,
      searchQueryState = Some ''q/nw'', pageNumber = Some 2, splitCount = Some 1,
      uniqueKey = ''q/nw'', forefront = False\<rparr>"

definition emptyCats :: cats where
  "emptyCats = \<lparr>cat1 = noResults, cat2 = noResults\<rparr>"

definition fiftyReported :: "string category_extract list" where
  "fiftyReported = [\<lparr>state = \<lparr>qs = ''q/nw'', searchState = emptyCats\<rparr>, totalCount = 50\<rparr>]"

definition levelFiveRequest :: "string request" where
  "levelFiveRequest = splitPageRequest\<lparr>pageNumber := None, splitCount := Some 5\<rparr>"

definition twoTargets :: "start_url list" where
  "twoTargets =
     [\<lparr>su_url = ''https://www.zillow.com/homes/100-Main-St'', matched = False\<rparr>,
      \<lparr>su_url = ''https://www.zillow.com/homedetails/100-Main-St'', matched = False\<rparr>]"

definition mainStTarget :: "start_url list" where
  "mainStTarget = [\<lparr>su_url = ''https://www.zillow.com/homes/100-Main-St'', matched = False\<rparr>]"

definition pineRdTarget :: "start_url list" where
  "pineRdTarget = [\<lparr>su_url = ''https://www.zillow.com/homes/999-Pine-Rd'', matched = False\<rparr>]"

definition twoResultsState :: "string query_state" where
  "twoResultsState =
     \<lparr>qs = ''q'',
      searchState = \<lparr>cat1 = \<lparr>mapResults = [mainSt, oakAve], listResults = []\<rparr>, cat2 = noResults\<rparr>\<rparr>"

definition oakOnlyState :: "string query_state" where
  "oakOnlyState =
     \<lparr>qs = ''q'',
      searchState = \<lparr>cat1 = \<lparr>mapResults = [oakAve], listResults = []\<rparr>, cat2 = noResults\<rparr>\<rparr>"

definition anomalousPage :: "string page" where
  "anomalousPage = \<lparr>pageQs = Some emptyCats, extractedQueryStates = Some fiftyReported\<rparr>"

definition zeroReported :: "string category_extract list" where
  "zeroReported = [\<lparr>state = \<lparr>qs = ''q'', searchState = emptyCats\<rparr>, totalCount = 0\<rparr>]"

definition emptyPage :: "string page" where
  "emptyPage = \<lparr>pageQs = Some emptyCats, extractedQueryStates = Some zeroReported\<rparr>"

definition specTargets :: "start_url list" where
  "specTargets =
     [\<lparr>su_url = ''https://www.zillow.com/homes/100-Main-St'', matched = False\<rparr>,
      \<lparr>su_url = ''https://www.zillow.com/homes/999-Pine-Rd'', matched = False\<rparr>]"

definition mainStMatch :: matched_result where
  "mainStMatch =
     \<lparr>result = mainSt, match = \<lparr>member_str = ''100 Main St'', index = 0, rating = 1\<rparr>,
      baseUrl = ''https://www.zillow.com/homes/100-Main-St''\<rparr>"

definition oneTargetWorld :: "string world" where
  "oneTargetWorld = emptyWorld\<lparr>cleanStartUrls := mainStTarget\<rparr>"

definition twoExpected :: "string world" where
  "twoExpected = emptyWorld\<lparr>maxZpidsFound := 2, cleanStartUrls := mainStTarget\<rparr>"

definition oneExtracted :: "string world" where
  "oneExtracted =
     emptyWorld\<lparr>zpids := [''1''], maxZpidsFound := 2, queried := [''1''], outputs := [''1''],
       slept := 100, posted := [UpdateResults [mainStMatch]],
       cleanStartUrls :=
         [\<lparr>su_url = ''https://www.zillow.com/homes/100-Main-St'', matched = True\<rparr>]\<rparr>"

definition pineWorld :: "string world" where
  "pineWorld = emptyWorld\<lparr>maxZpidsFound := 1, cleanStartUrls := pineRdTarget\<rparr>"

definition queriedOnce :: "string world" where
  "queriedOnce = emptyWorld\<lparr>queried := [''3'']\<rparr>"

section \<open>Properties of the item cap\<close>

lemma cap_isOverItems:
  "maxItems e = Some m \<Longrightarrow> 0 < m \<Longrightarrow> m \<le> size_of (zpids s) \<Longrightarrow> isOverItems e s"
  by (simp add: isOverItems_def)

lemma processZpid_over: "isOverItems e s \<Longrightarrow> processZpid e z du s = (Inr (), s)"
  by (simp add: processZpid_def)

lemma extractLoop_over: "isOverItems e s \<Longrightarrow> extractLoop e rs s = (Inr (), s)"
  by (induction rs) (simp_all add: processZpid_over)

lemma handleZpidsPage_over: "isOverItems e s \<Longrightarrow> handleZpidsPage e zs s = (Inr (), s)"
  by (cases zs) (simp_all add: processZpid_over)

lemma processPageQsResults_over:
  "isOverItems e s \<Longrightarrow> snd (processPageQsResults e rs s) = s"
  by (induction rs) simp_all

text \<open>
  C8. Once the set of ids holds \<open>maxItems\<close> entries (\<open>maxItems\<close> a number above 0),
  \<open>processZpid\<close> returns at its first test: it issues no query and changes nothing, for
  any id. Each batch loop (\<open>_extractZpidsFromResults\<close>, \<open>handleZpidsPage\<close>,
  \<open>_processPageQsResults\<close>) therefore ends with the state it started from, so the list of
  queries stays as it was and the cap stays reached for every later call.
\<close>

theorem cap_reached_no_query:
  assumes "maxItems e = Some m" and "0 < m" and "m \<le> size_of (zpids s)"
  shows "processZpid e z du s = (Inr (), s)
       \<and> extractZpidsFromResults e rs s = (Inr (), s)
       \<and> handleZpidsPage e zs s = (Inr (), s)
       \<and> snd (processPageQsResults e rs s) = s"
proof -
  have over: "isOverItems e s"
    using assms by (rule cap_isOverItems)
  show ?thesis
    by (simp add: processZpid_over [OF over] extractLoop_over [OF over]
        handleZpidsPage_over [OF over] processPageQsResults_over [OF over]
        extractZpidsFromResults_def)
qed

theorem cap_reached_no_query_witness:
  "maxItems cappedEnv = Some 2 \<and> (0::int) < 2 \<and> 2 \<le> size_of (zpids twoFound)
   \<and> processZpid cappedEnv ''3'' [] twoFound = (Inr (), twoFound)
   \<and> extractZpidsFromResults cappedEnv [mainSt, oakAve] twoFound = (Inr (), twoFound)
   \<and> handleZpidsPage cappedEnv [''3'', ''4''] twoFound = (Inr (), twoFound)
   \<and> snd (processPageQsResults cappedEnv [mainSt, oakAve] twoFound) = twoFound"
proof -
  have h1: "maxItems cappedEnv = Some 2"
    by (simp add: cappedEnv_def)
  have h2: "(0::int) < 2"
    by simp
  have h3: "2 \<le> size_of (zpids twoFound)"
    by (simp add: twoFound_def size_of_def)
  show ?thesis
    using h1 h2 h3 cap_reached_no_query [OF h1 h2 h3] by blast
qed

section \<open>Properties of \<open>processZpid\<close>\<close>

lemma tryBlock_queue: "tryBlock e z s = (r, s') \<Longrightarrow> requestQueue s' = requestQueue s"
  by (auto simp: tryBlock_def Let_def split: if_splits option.splits prod.splits)

lemma tryBlock_falsy: "tryBlock e [] s = (Thrown NotZpid, s)"
  by (simp add: tryBlock_def)

lemma catchBlock_queue:
  "catchBlock e z du err s = (r, nw, s') \<Longrightarrow>
   requestQueue s' = requestQueue s \<or>
   (err \<noteq> NotZpid \<and> requestQueue s' = requestQueue s @ [fallbackRequest z du])"
  by (auto simp: catchBlock_def addRequest_def split: if_splits)

lemma processZpid_queue:
  assumes "processZpid e z du s = (r, s')"
  shows "requestQueue s' = requestQueue s \<or>
         (z \<noteq> [] \<and> requestQueue s' = requestQueue s @ [fallbackRequest z du])"
proof (cases "isOverItems e s")
  case True
  with assms show ?thesis by (simp add: processZpid_def)
next
  case False
  obtain t s1 where t: "tryBlock e z s = (t, s1)" by (cases "tryBlock e z s")
  have q1: "requestQueue s1 = requestQueue s" using t by (rule tryBlock_queue)
  show ?thesis
  proof (cases t)
    case Completed
    with assms False t q1 show ?thesis by (auto simp: processZpid_def sleep_def)
  next
    case Returned
    with assms False t q1 show ?thesis by (auto simp: processZpid_def)
  next
    case (Thrown err)
    obtain r2 nw s2 where c: "catchBlock e z du err s1 = (r2, nw, s2)"
      by (cases "catchBlock e z du err s1") auto
    have s': "requestQueue s' = requestQueue s2"
      using assms False t Thrown c by (auto simp: processZpid_def sleep_def split: if_splits)
    have "z = [] \<Longrightarrow> err = NotZpid"
      using t Thrown tryBlock_falsy [of e s] by simp
    with catchBlock_queue [OF c] q1 s' show ?thesis by auto
  qed
qed

lemma hostAdd_keys:
  "set (map uniqueKey (hostAdd acc r)) = insert (uniqueKey r) (set (map uniqueKey acc))"
  by (auto simp: hostAdd_def)

lemma hostAdd_distinct:
  "distinct (map uniqueKey acc) \<Longrightarrow> distinct (map uniqueKey (hostAdd acc r))"
  by (auto simp: hostAdd_def)

lemma foldl_hostAdd:
  "distinct (map uniqueKey acc) \<Longrightarrow>
   distinct (map uniqueKey (foldl hostAdd acc calls)) \<and>
   set (map uniqueKey (foldl hostAdd acc calls)) =
     set (map uniqueKey acc) \<union> set (map uniqueKey calls)"
proof (induction calls arbitrary: acc)
  case Nil
  then show ?case by simp
next
  case (Cons c calls)
  from Cons.IH [OF hostAdd_distinct [OF Cons.prems, of c]] hostAdd_keys [of acc c]
  show ?case by auto
qed

lemma one_per_key:
  "distinct (map f xs) \<Longrightarrow> k \<in> set (map f xs) \<Longrightarrow> length (filter (\<lambda>x. f x = k) xs) = 1"
proof (induction xs)
  case Nil
  then show ?case by simp
next
  case (Cons x xs)
  show ?case
  proof (cases "f x = k")
    case True
    with Cons.prems have "filter (\<lambda>y. f y = k) xs = []"
      by (auto simp: filter_empty_conv image_iff)
    with True show ?thesis by simp
  next
    case False
    with Cons show ?thesis by auto
  qed
qed

lemma hostQueue_one_per_key:
  "r \<in> set calls \<Longrightarrow> length (filter (\<lambda>q. uniqueKey q = uniqueKey r) (hostQueue calls)) = 1"
proof -
  assume "r \<in> set calls"
  then have "uniqueKey r \<in> set (map uniqueKey (hostQueue calls))"
    using foldl_hostAdd [of "[]" calls] by (auto simp: hostQueue_def)
  moreover have "distinct (map uniqueKey (hostQueue calls))"
    using foldl_hostAdd [of "[]" calls] by (simp add: hostQueue_def)
  ultimately show ?thesis by (rule one_per_key [rotated])
qed

lemma fallbackRequest_key: "z \<noteq> [] \<Longrightarrow> uniqueKey (fallbackRequest z du) = z"
  by (simp add: fallbackRequest_def)

lemma tryBlock_query_fails:
  assumes "z \<noteq> []" and "isNumeric e z" and "\<not> has (zpids s) z" and "isUsable e (session s)"
    and "queryZpid e (length (queried s)) z = None"
  shows "tryBlock e z s = (Thrown ExtractionFailed, s\<lparr>queried := queried s @ [z]\<rparr>)"
  using assms by (simp add: tryBlock_def)

lemma tryBlock_thrown_truthy:
  assumes "tryBlock e z s = (Thrown err, s1)" and "err \<noteq> NotZpid"
  shows "z \<noteq> []"
proof
  assume "z = []"
  with assms(1) tryBlock_falsy [of e s] have "err = NotZpid" by simp
  with assms(2) show False by simp
qed

lemma processZpid_failure:
  assumes "tryBlock e z s = (Thrown err, s1)" and "err \<noteq> NotZpid" and "err \<noteq> InvalidNonNumeric"
    and "\<not> isOverItems e s" and "\<not> isOverItems e s1" and "urlParses e (fallbackRef z du)"
  shows "processZpid e z du s =
           (Inr (), sleep 100 ((addRequest (fallbackRequest z du) s1)
                                 \<lparr>anyErrors := True, session := markBad (session s1)\<rparr>))"
  using assms by (simp add: processZpid_def catchBlock_def)

lemma hostQueue_snoc: "hostQueue (calls @ [r]) = hostAdd (hostQueue calls) r"
  by (simp add: hostQueue_def)

lemma hostQueue_append: "hostQueue (calls @ later) = foldl hostAdd (hostQueue calls) later"
  by (simp add: hostQueue_def)

lemma hostQueue_keys: "set (map uniqueKey (hostQueue calls)) = set (map uniqueKey calls)"
  using foldl_hostAdd [of "[]" calls] by (simp add: hostQueue_def)

lemma hostQueue_drops:
  assumes "uniqueKey r \<in> set (map uniqueKey calls)"
  shows "hostQueue (calls @ [r]) = hostQueue calls"
proof -
  from assms have "uniqueKey r \<in> set (map uniqueKey (hostQueue calls))"
    by (simp only: hostQueue_keys)
  then show ?thesis
    by (simp add: hostQueue_snoc hostAdd_def)
qed

lemma hostAdd_keeps: "x \<in> set acc \<Longrightarrow> x \<in> set (hostAdd acc r)"
  by (simp add: hostAdd_def)

lemma foldl_hostAdd_keeps: "x \<in> set acc \<Longrightarrow> x \<in> set (foldl hostAdd acc calls)"
  by (induction calls arbitrary: acc) (simp_all add: hostAdd_keeps)

lemma hostQueue_accepts:
  assumes "uniqueKey r \<notin> set (map uniqueKey calls)"
  shows "r \<in> set (hostQueue ((calls @ [r]) @ later))"
proof -
  have "uniqueKey r \<notin> set (map uniqueKey (hostQueue calls))"
    unfolding hostQueue_keys by (rule assms)
  then have "r \<in> set (hostAdd (hostQueue calls) r)"
    by (simp add: hostAdd_def)
  then have "r \<in> set (hostQueue (calls @ [r]))"
    by (simp only: hostQueue_snoc)
  then show ?thesis
    unfolding hostQueue_append [of "calls @ [r]" later] by (rule foldl_hostAdd_keeps)
qed

text \<open>
  C10. When an extraction attempt fails, that is, the \<open>try\<close> block of \<open>processZpid\<close>
  throws something other than the two invalid-id errors, with the cap reached neither
  before nor after it and a fallback URL that parses, \<open>processZpid\<close> returns normally
  and has enqueued exactly the fallback detail request of the id. Whatever the detail
  URL, the request's \<open>uniqueKey\<close> is the id itself (the \<open>|| detailUrl\<close> alternative needs
  a falsy id, which never reaches the enqueue), its label is \<open>DETAIL\<close> and it is put in
  front. Every call of \<open>processZpid\<close> for that id, in any state, enqueues nothing or that
  id's fallback request, so all failures of one id carry one identity. The host's queue
  then drops every later fallback request of the id, holds exactly one request with that
  key from there on, and holds this very fallback request when the key had not been used
  before.
\<close>

theorem fallback_identity:
  fixes s :: "'qs world"
  assumes "tryBlock e z s = (Thrown err, s1)" and "err \<noteq> NotZpid" and "err \<noteq> InvalidNonNumeric"
    and "\<not> isOverItems e s" and "\<not> isOverItems e s1" and "urlParses e (fallbackRef z du)"
  shows "processZpid e z du s =
           (Inr (), sleep 100 ((addRequest (fallbackRequest z du) s1)
                                 \<lparr>anyErrors := True, session := markBad (session s1)\<rparr>))
       \<and> requestQueue (snd (processZpid e z du s)) = requestQueue s @ [fallbackRequest z du]
       \<and> z \<noteq> []
       \<and> (\<forall>du'. uniqueKey (fallbackRequest z du' :: 'qs request) = z
               \<and> label (fallbackRequest z du' :: 'qs request) = DETAIL
               \<and> forefront (fallbackRequest z du' :: 'qs request))
       \<and> (\<forall>du2 s2. requestQueue (snd (processZpid e z du2 s2)) = requestQueue s2
               \<or> requestQueue (snd (processZpid e z du2 s2)) =
                    requestQueue s2 @ [fallbackRequest z du2])
       \<and> (\<forall>later du'.
             hostQueue ((requestQueue (snd (processZpid e z du s)) @ later) @ [fallbackRequest z du'])
               = hostQueue (requestQueue (snd (processZpid e z du s)) @ later))
       \<and> (\<forall>later. length (filter (\<lambda>q. uniqueKey q = z)
                           (hostQueue (requestQueue (snd (processZpid e z du s)) @ later))) = 1)
       \<and> (z \<notin> set (map uniqueKey (requestQueue s)) \<longrightarrow>
            (\<forall>later. fallbackRequest z du
                      \<in> set (hostQueue (requestQueue (snd (processZpid e z du s)) @ later))))"
proof -
  let ?fb = "fallbackRequest z du :: 'qs request"
  let ?q = "requestQueue (snd (processZpid e z du s))"
  have run: "processZpid e z du s =
           (Inr (), sleep 100 ((addRequest ?fb s1)
                                 \<lparr>anyErrors := True, session := markBad (session s1)\<rparr>))"
    using assms by (rule processZpid_failure)
  have z: "z \<noteq> []"
    using assms(1,2) by (rule tryBlock_thrown_truthy)
  have q1: "requestQueue s1 = requestQueue s"
    using assms(1) by (rule tryBlock_queue)
  have q: "?q = requestQueue s @ [?fb]"
    by (simp add: run sleep_def addRequest_def q1)
  have key: "\<And>du'. uniqueKey (fallbackRequest z du' :: 'qs request) = z"
    using z by (simp add: fallbackRequest_key)
  have ident: "\<forall>du'. uniqueKey (fallbackRequest z du' :: 'qs request) = z
               \<and> label (fallbackRequest z du' :: 'qs request) = DETAIL
               \<and> forefront (fallbackRequest z du' :: 'qs request)"
    using z by (simp add: fallbackRequest_def)
  have only: "\<forall>du2 s2. requestQueue (snd (processZpid e z du2 s2)) = requestQueue s2
               \<or> requestQueue (snd (processZpid e z du2 s2)) =
                    requestQueue s2 @ [fallbackRequest z du2]"
  proof (intro allI)
    fix du2 and s2 :: "'qs world"
    obtain r2 s2' where p: "processZpid e z du2 s2 = (r2, s2')"
      by (cases "processZpid e z du2 s2")
    from processZpid_queue [OF p] p
    show "requestQueue (snd (processZpid e z du2 s2)) = requestQueue s2
               \<or> requestQueue (snd (processZpid e z du2 s2)) =
                    requestQueue s2 @ [fallbackRequest z du2]"
      by auto
  qed
  have inq: "\<And>later. ?fb \<in> set (?q @ later)"
    by (simp add: q)
  have drops: "\<forall>later du'. hostQueue ((?q @ later) @ [fallbackRequest z du']) = hostQueue (?q @ later)"
  proof (intro allI)
    fix later du'
    from inq [of later] have "uniqueKey ?fb \<in> uniqueKey ` set (?q @ later)"
      by (rule imageI)
    then have "uniqueKey ?fb \<in> set (map uniqueKey (?q @ later))"
      by (simp only: set_map)
    then have "uniqueKey (fallbackRequest z du' :: 'qs request) \<in> set (map uniqueKey (?q @ later))"
      by (simp only: key)
    then show "hostQueue ((?q @ later) @ [fallbackRequest z du']) = hostQueue (?q @ later)"
      by (rule hostQueue_drops)
  qed
  have one: "\<forall>later. length (filter (\<lambda>q. uniqueKey q = z) (hostQueue (?q @ later))) = 1"
  proof
    fix later
    from hostQueue_one_per_key [OF inq [of later]]
    show "length (filter (\<lambda>q. uniqueKey q = z) (hostQueue (?q @ later))) = 1"
      by (simp only: key)
  qed
  have acc: "z \<notin> set (map uniqueKey (requestQueue s)) \<longrightarrow>
            (\<forall>later. ?fb \<in> set (hostQueue (?q @ later)))"
  proof (intro impI allI)
    fix later
    assume "z \<notin> set (map uniqueKey (requestQueue s))"
    then have "uniqueKey ?fb \<notin> set (map uniqueKey (requestQueue s))"
      unfolding key .
    then have "?fb \<in> set (hostQueue ((requestQueue s @ [?fb]) @ later))"
      by (rule hostQueue_accepts)
    then show "?fb \<in> set (hostQueue (?q @ later))"
      by (simp only: q)
  qed
  from run q z ident only drops one acc show ?thesis
    by (intro conjI)
qed

lemma second_failure_run:
  "processZpid failingEnv ''3'' ''/b/some-building/'' failedOnce = (Inr (), failedTwice)"
  by (simp add: processZpid_def tryBlock_def catchBlock_def isOverItems_def has_def
      failingEnv_def demoEnv_def failedOnce_def failedTwice_def emptyWorld_def
      digitString_def fallbackRef_def addRequest_def sleep_def markBad_def)

theorem fallback_identity_witness:
  "tryBlock failingEnv ''3'' emptyWorld = (Thrown ExtractionFailed, queriedOnce)
   \<and> ExtractionFailed \<noteq> NotZpid \<and> ExtractionFailed \<noteq> InvalidNonNumeric
   \<and> \<not> isOverItems failingEnv emptyWorld \<and> \<not> isOverItems failingEnv queriedOnce
   \<and> urlParses failingEnv (fallbackRef ''3'' [])
   \<and> queried queriedOnce = [''3'']
   \<and> processZpid failingEnv ''3'' [] emptyWorld = (Inr (), failedOnce)
   \<and> requestQueue failedOnce = requestQueue emptyWorld @ [fallbackRequest ''3'' []]
   \<and> uniqueKey (fallbackRequest ''3'' [] :: string request) = ''3''
   \<and> fallbackRequest ''3'' [] \<in> set (hostQueue (requestQueue failedOnce))
   \<and> processZpid failingEnv ''3'' ''/b/some-building/'' failedOnce = (Inr (), failedTwice)
   \<and> requestQueue failedTwice =
       requestQueue failedOnce @ [fallbackRequest ''3'' ''/b/some-building/'']
   \<and> hostQueue (requestQueue failedTwice) = hostQueue (requestQueue failedOnce)
   \<and> length (filter (\<lambda>q. uniqueKey q = ''3'') (hostQueue (requestQueue failedTwice))) = 1"
proof -
  have env: "''3'' \<noteq> []" "isNumeric failingEnv ''3''" "\<not> has (zpids emptyWorld) ''3''"
    "isUsable failingEnv (session emptyWorld)"
    "queryZpid failingEnv (length (queried emptyWorld)) ''3'' = None"
    by (simp_all add: failingEnv_def demoEnv_def digitString_def emptyWorld_def freshSession_def
        has_def)
  have "tryBlock failingEnv ''3'' emptyWorld =
          (Thrown ExtractionFailed, emptyWorld\<lparr>queried := queried emptyWorld @ [''3'']\<rparr>)"
    using env by (rule tryBlock_query_fails)
  then have h1: "tryBlock failingEnv ''3'' emptyWorld = (Thrown ExtractionFailed, queriedOnce)"
    by (simp add: queriedOnce_def emptyWorld_def)
  have h2: "ExtractionFailed \<noteq> NotZpid" and h3: "ExtractionFailed \<noteq> InvalidNonNumeric"
    by simp_all
  have h4: "\<not> isOverItems failingEnv emptyWorld" and h5: "\<not> isOverItems failingEnv queriedOnce"
    by (simp_all add: isOverItems_def failingEnv_def demoEnv_def)
  have h6: "urlParses failingEnv (fallbackRef ''3'' [])"
    by (simp add: failingEnv_def demoEnv_def)
  note inst = fallback_identity [OF h1 h2 h3 h4 h5 h6]
  have w: "sleep 100 ((addRequest (fallbackRequest ''3'' []) queriedOnce)
             \<lparr>anyErrors := True, session := markBad (session queriedOnce)\<rparr>) = failedOnce"
    by (simp add: sleep_def addRequest_def markBad_def queriedOnce_def failedOnce_def
        emptyWorld_def freshSession_def)
  from inst have "processZpid failingEnv ''3'' [] emptyWorld =
           (Inr (), sleep 100 ((addRequest (fallbackRequest ''3'' []) queriedOnce)
                                 \<lparr>anyErrors := True, session := markBad (session queriedOnce)\<rparr>))"
    by (rule conjunct1)
  then have run1: "processZpid failingEnv ''3'' [] emptyWorld = (Inr (), failedOnce)"
    by (simp only: w)
  then have snd1: "snd (processZpid failingEnv ''3'' [] emptyWorld) = failedOnce"
    by simp
  from inst have q1: "requestQueue failedOnce = requestQueue emptyWorld @ [fallbackRequest ''3'' []]"
    unfolding snd1 by blast
  from inst have k: "uniqueKey (fallbackRequest ''3'' [] :: string request) = ''3''"
    by blast
  have fresh: "''3'' \<notin> set (map uniqueKey (requestQueue emptyWorld))"
    by (simp add: emptyWorld_def)
  from inst fresh have "\<forall>later. fallbackRequest ''3'' []
                      \<in> set (hostQueue (requestQueue failedOnce @ later))"
    unfolding snd1 by blast
  then have "fallbackRequest ''3'' [] \<in> set (hostQueue (requestQueue failedOnce @ []))"
    by (rule spec)
  then have acc: "fallbackRequest ''3'' [] \<in> set (hostQueue (requestQueue failedOnce))"
    by simp
  have q2: "requestQueue failedTwice =
       requestQueue failedOnce @ [fallbackRequest ''3'' ''/b/some-building/'']"
    by (simp add: failedOnce_def failedTwice_def)
  from inst have "\<forall>later du'.
             hostQueue ((requestQueue failedOnce @ later) @ [fallbackRequest ''3'' du'])
               = hostQueue (requestQueue failedOnce @ later)"
    unfolding snd1 by blast
  then have "hostQueue ((requestQueue failedOnce @ []) @ [fallbackRequest ''3'' ''/b/some-building/''])
               = hostQueue (requestQueue failedOnce @ [])"
    by blast
  then have d: "hostQueue (requestQueue failedTwice) = hostQueue (requestQueue failedOnce)"
    by (simp add: q2)
  from inst have "\<forall>later. length (filter (\<lambda>q. uniqueKey q = ''3'')
                           (hostQueue (requestQueue failedOnce @ later))) = 1"
    unfolding snd1 by blast
  then have "length (filter (\<lambda>q. uniqueKey q = ''3'')
               (hostQueue (requestQueue failedOnce @ [fallbackRequest ''3'' ''/b/some-building/'']))) = 1"
    by (rule spec)
  then have one: "length (filter (\<lambda>q. uniqueKey q = ''3'') (hostQueue (requestQueue failedTwice))) = 1"
    by (simp only: q2)
  have qd: "queried queriedOnce = [''3'']"
    by (simp add: queriedOnce_def)
  from h1 h2 h3 h4 h5 h6 qd run1 q1 k acc second_failure_run q2 d one show ?thesis
    by (intro conjI)
qed

text \<open>
  C6, as amended. For a valid id that is not yet in the set, below the cap, with a session
  that reports itself unusable and a fallback URL that parses: \<open>processZpid\<close> issues no
  query and does not throw. The error it raises inside its \<open>try\<close> block is caught by its
  own \<open>catch\<close> block, which enqueues the fallback detail request in front, sets
  \<open>anyErrors\<close> and calls \<open>session.markBad()\<close>; the method then sleeps 100 ms and returns.
\<close>

theorem unusable_session_falls_back:
  assumes "\<not> isOverItems e s" and "z \<noteq> []" and "isNumeric e z" and "\<not> has (zpids s) z"
    and "\<not> isUsable e (session s)" and "urlParses e (fallbackRef z du)"
  shows "processZpid e z du s =
           (Inr (), sleep 100 ((addRequest (fallbackRequest z du) s)
                                 \<lparr>anyErrors := True, session := markBad (session s)\<rparr>))
       \<and> queried (snd (processZpid e z du s)) = queried s"
  using assms
  by (simp add: processZpid_def tryBlock_def catchBlock_def sleep_def addRequest_def)

theorem unusable_session_falls_back_witness:
  "\<not> isOverItems unusableEnv emptyWorld \<and> ''3'' \<noteq> [] \<and> isNumeric unusableEnv ''3''
   \<and> \<not> has (zpids emptyWorld) ''3'' \<and> \<not> isUsable unusableEnv (session emptyWorld)
   \<and> urlParses unusableEnv (fallbackRef ''3'' [])
   \<and> processZpid unusableEnv ''3'' [] emptyWorld =
           (Inr (), sleep 100 ((addRequest (fallbackRequest ''3'' []) emptyWorld)
                                 \<lparr>anyErrors := True, session := markBad (session emptyWorld)\<rparr>))
   \<and> queried (snd (processZpid unusableEnv ''3'' [] emptyWorld)) = queried emptyWorld"
proof -
  have h1: "\<not> isOverItems unusableEnv emptyWorld"
    by (simp add: isOverItems_def unusableEnv_def demoEnv_def)
  have h2: "''3'' \<noteq> []" by simp
  have h3: "isNumeric unusableEnv ''3''"
    by (simp add: unusableEnv_def demoEnv_def digitString_def)
  have h4: "\<not> has (zpids emptyWorld) ''3''"
    by (simp add: has_def emptyWorld_def)
  have h5: "\<not> isUsable unusableEnv (session emptyWorld)"
    by (simp add: unusableEnv_def)
  have h6: "urlParses unusableEnv (fallbackRef ''3'' [])"
    by (simp add: unusableEnv_def demoEnv_def)
  show ?thesis
    using h1 h2 h3 h4 h5 h6 unusable_session_falls_back [OF h1 h2 h3 h4 h5 h6] by blast
qed

text \<open>
  The claim C6 as stated (the attempt throws, enqueues nothing, leaves \<open>anyErrors\<close> and
  the session alone) fails for id 3 with an unusable session.
\<close>

theorem unusable_session_counterexample:
  "isNumeric unusableEnv ''3'' \<and> has (zpids emptyWorld) ''3'' = False
   \<and> isUsable unusableEnv (session emptyWorld) = False
   \<and> processZpid unusableEnv ''3'' [] emptyWorld = (Inr (), fellBack)
   \<and> requestQueue fellBack = [fallbackRequest ''3'' []]
   \<and> anyErrors fellBack
   \<and> markedBad (session fellBack) = 1 \<and> markedBad (session emptyWorld) = 0"
  by (simp add: processZpid_def tryBlock_def catchBlock_def isOverItems_def has_def
      unusableEnv_def demoEnv_def fellBack_def emptyWorld_def freshSession_def
      digitString_def fallbackRef_def addRequest_def sleep_def markBad_def)

section \<open>Properties of the pagination planner\<close>

lemma paginationLoop_eq:
  "paginationLoop e sqs pagesCount i s =
     s\<lparr>requestQueue := requestQueue s @
          map (paginationRequest e sqs) [i ..< nat (\<lfloor>pagesCount\<rfloor> + 1)]\<rparr>"
proof (induction e sqs pagesCount i s rule: paginationLoop.induct)
  case (1 e sqs pagesCount i s)
  show ?case
  proof (cases "of_nat i \<le> pagesCount")
    case True
    then have "int i \<le> \<lfloor>pagesCount\<rfloor>"
      by (simp add: le_floor_iff)
    then have "i < nat (\<lfloor>pagesCount\<rfloor> + 1)"
      by linarith
    then have "[i ..< nat (\<lfloor>pagesCount\<rfloor> + 1)] = i # [Suc i ..< nat (\<lfloor>pagesCount\<rfloor> + 1)]"
      by (rule upt_conv_Cons)
    with True "1.IH" show ?thesis
      by (subst paginationLoop.simps) (simp add: addRequest_def)
  next
    case False
    then have "\<not> int i \<le> \<lfloor>pagesCount\<rfloor>"
      by (simp add: le_floor_iff)
    then have "nat (\<lfloor>pagesCount\<rfloor> + 1) \<le> i"
      by linarith
    then have "[i ..< nat (\<lfloor>pagesCount\<rfloor> + 1)] = []"
      by simp
    with False show ?thesis
      by (subst paginationLoop.simps) simp
  qed
qed

lemma floor_min_rat: "\<lfloor>min a (b :: rat)\<rfloor> = min \<lfloor>a\<rfloor> \<lfloor>b\<rfloor>"
proof (cases "a \<le> b")
  case True
  then have "\<lfloor>a\<rfloor> \<le> \<lfloor>b\<rfloor>" by (rule floor_mono)
  with True show ?thesis by (simp add: min_def)
next
  case False
  then have "b \<le> a" by simp
  then have "\<lfloor>b\<rfloor> \<le> \<lfloor>a\<rfloor>" by (rule floor_mono)
  with False show ?thesis by (simp add: min_def)
qed

lemma floor_pagesCount:
  "\<lfloor>min ((of_int tCount / LISTINGS_PER_PAGE) + 1) (of_int lmt)\<rfloor> = min (tCount div 40 + 1) lmt"
proof -
  have "\<lfloor>(of_int tCount :: rat) / of_int 40\<rfloor> = tCount div 40"
    by (rule floor_divide_of_int_eq)
  then have "\<lfloor>(of_int tCount :: rat) / 40 + 1\<rfloor> = tCount div 40 + 1"
    by simp
  then show ?thesis
    by (simp add: LISTINGS_PER_PAGE_def floor_min_rat)
qed

lemma tryEnqueuePaginationPages_eq:
  "tryEnqueuePaginationPages e sqs tCount s =
     (if tCount > 0 \<and> size_of (zpids s) < maxZpidsFound s
      then s\<lparr>requestQueue := requestQueue s @
              map (paginationRequest e sqs) [2 ..< nat (min (tCount div 40 + 1) (PAGES_LIMIT e) + 1)]\<rparr>
      else s)"
  by (simp add: tryEnqueuePaginationPages_def paginationLoop_eq floor_pagesCount)

lemma spec_pagesCount_100: "spec_pagesCount 100 20 = 4"
proof -
  have "\<lceil>(100 :: rat) / 40\<rceil> = 3"
    by (rule ceiling_unique) simp_all
  then show ?thesis
    by (simp add: spec_pagesCount_def)
qed

text \<open>
  C1, as amended. For a positive total count, while the set holds fewer ids than
  \<open>maxZpidsFound\<close>, \<open>_tryEnqueuePaginationPages\<close> calls \<open>addRequest\<close> exactly once for each
  page number from 2 to \<open>min (totalCount div 40 + 1) PAGES_LIMIT\<close>, in order, and never for
  page 1: the source divides without rounding up, and its loop \<open>i <= pagesCount\<close> stops at
  the integer part. Each request carries its page number, and all of them carry the
  same \<open>uniqueKey\<close>, the hash of the query state without the page number.
\<close>

theorem pagination_pages:
  assumes "0 < tCount" and "size_of (zpids s) < maxZpidsFound s"
  shows "requestQueue (tryEnqueuePaginationPages e sqs tCount s) =
           requestQueue s @
           map (paginationRequest e sqs)
             [2 ..< nat (min (tCount div 40 + 1) (PAGES_LIMIT e) + 1)]
       \<and> (\<forall>i. pageNumber (paginationRequest e sqs i) = Some i
              \<and> uniqueKey (paginationRequest e sqs i) = quickHash e sqs)"
  using assms by (simp add: tryEnqueuePaginationPages_eq paginationRequest_def)

theorem pagination_pages_witness:
  "(0::int) < 120 \<and> size_of (zpids hundredExpected) < maxZpidsFound hundredExpected
   \<and> map pageNumber (requestQueue (tryEnqueuePaginationPages demoEnv ''q'' 120 hundredExpected))
       = [Some 2, Some 3, Some 4]"
proof -
  have h1: "(0::int) < 120"
    by simp
  have h2: "size_of (zpids hundredExpected) < maxZpidsFound hundredExpected"
    by (simp add: hundredExpected_def emptyWorld_def size_of_def)
  have lim: "PAGES_LIMIT demoEnv = 20"
    by (simp add: demoEnv_def)
  have "requestQueue hundredExpected = []"
    by (simp add: hundredExpected_def emptyWorld_def)
  with pagination_pages [OF h1 h2, of demoEnv "''q''"] lim
  have "map pageNumber (requestQueue (tryEnqueuePaginationPages demoEnv ''q'' 120 hundredExpected))
          = map Some [2 ..< 5]"
    by simp
  then show ?thesis
    using h1 h2 by (simp add: upt_rec)
qed

text \<open>
  The claim C1 as stated asks for the pages 2 to \<open>min(ceil(totalCount / 40) + 1,
  pagesLimit)\<close>. For a total count of 100 and a limit of 20 that is pages 2, 3 and 4; the
  source enqueues pages 2 and 3.
\<close>

theorem pagination_ceil_counterexample:
  "spec_pagesCount 100 (PAGES_LIMIT demoEnv) = 4
   \<and> map pageNumber (requestQueue (tryEnqueuePaginationPages demoEnv ''q'' 100 hundredExpected))
       = [Some 2, Some 3]"
proof -
  have "PAGES_LIMIT demoEnv = 20"
    by (simp add: demoEnv_def)
  then show ?thesis
    by (simp add: tryEnqueuePaginationPages_eq hundredExpected_def emptyWorld_def size_of_def
        paginationRequest_def spec_pagesCount_100 upt_rec)
qed

section \<open>Properties of the map split planner\<close>

lemma isOverItems_addRequest: "isOverItems e (addRequest r s) = isOverItems e s"
  by (simp add: isOverItems_def addRequest_def split: option.splits)

lemma enqueueMapSplits_eq:
  "enqueueMapSplits e splits sc s =
     (if isOverItems e s then s
      else s\<lparr>requestQueue := requestQueue s @ map (\<lambda>q. splitRequest e q sc) splits\<rparr>)"
proof (induction splits arbitrary: s)
  case Nil
  then show ?case by simp
next
  case (Cons q splits)
  then show ?case
    by (simp add: isOverItems_addRequest) (simp add: addRequest_def)
qed

lemma tryEnqueueMapSplits_eq:
  "tryEnqueueMapSplits e rq q tCount s =
     (if tCount \<ge> mapSplittingThreshold e \<and> int (currentSplitCount rq) < maxLevelOf e
         \<and> \<not> isOverItems e s
      then s\<lparr>requestQueue := requestQueue s @
              map (\<lambda>q'. splitRequest e q' (currentSplitCount rq + 1)) (splitQueryState e q)\<rparr>
      else s)"
  by (simp add: tryEnqueueMapSplits_def enqueueMapSplits_eq)

text \<open>
  C9, as amended. \<open>_tryEnqueueMapSplits\<close> enqueues one request for each part that
  \<open>splitQueryState\<close> returns if the total count is at least the threshold
  (\<open>input.splitThreshold || RESULTS_LIMIT\<close>), the request's split count is strictly below
  \<open>input.maxLevel ?? 5\<close> and the item cap has not been reached; otherwise it enqueues
  nothing and raises nothing. Every request it enqueues carries the parent's split count
  plus 1, which is at most the maximum level; at or above the maximum level the state is
  unchanged.
\<close>

theorem map_split_planning:
  "requestQueue (tryEnqueueMapSplits e rq q tCount s) =
     (if tCount \<ge> mapSplittingThreshold e \<and> int (currentSplitCount rq) < maxLevelOf e
         \<and> \<not> isOverItems e s
      then requestQueue s @
           map (\<lambda>q'. splitRequest e q' (currentSplitCount rq + 1)) (splitQueryState e q)
      else requestQueue s)
   \<and> (\<forall>r \<in> set (drop (length (requestQueue s))
                   (requestQueue (tryEnqueueMapSplits e rq q tCount s))).
        splitCount r = Some (currentSplitCount rq + 1)
        \<and> int (currentSplitCount rq + 1) \<le> maxLevelOf e)
   \<and> (maxLevelOf e \<le> int (currentSplitCount rq) \<longrightarrow> tryEnqueueMapSplits e rq q tCount s = s)"
  by (auto simp: tryEnqueueMapSplits_eq splitRequest_def)

theorem map_split_planning_witness:
  "map splitCount (requestQueue (tryEnqueueMapSplits demoEnv firstPageRequest ''q'' 600 emptyWorld))
     = [Some 1, Some 1, Some 1, Some 1]
   \<and> maxLevelOf demoEnv \<le> int (currentSplitCount levelFiveRequest)
   \<and> tryEnqueueMapSplits demoEnv levelFiveRequest ''q'' 600 emptyWorld = emptyWorld"
proof -
  have thr: "mapSplittingThreshold demoEnv = 500" and lvl: "maxLevelOf demoEnv = 5"
    and cap: "\<not> isOverItems demoEnv emptyWorld"
    and parts: "splitQueryState demoEnv ''q'' = [''q/nw'', ''q/ne'', ''q/sw'', ''q/se'']"
    by (simp_all add: mapSplittingThreshold_def maxLevelOf_def isOverItems_def demoEnv_def)
  have first: "currentSplitCount firstPageRequest = 0"
    by (simp add: currentSplitCount_def firstPageRequest_def)
  have five: "currentSplitCount levelFiveRequest = 5"
    by (simp add: currentSplitCount_def levelFiveRequest_def)
  have empty: "requestQueue emptyWorld = []"
    by (simp add: emptyWorld_def)
  from map_split_planning [of demoEnv firstPageRequest "''q''" 600 emptyWorld]
  have "requestQueue (tryEnqueueMapSplits demoEnv firstPageRequest ''q'' 600 emptyWorld) =
          map (\<lambda>q'. splitRequest demoEnv q' 1) [''q/nw'', ''q/ne'', ''q/sw'', ''q/se'']"
    by (simp add: thr lvl cap parts first empty)
  moreover from map_split_planning [of demoEnv levelFiveRequest "''q''" 600 emptyWorld]
  have "tryEnqueueMapSplits demoEnv levelFiveRequest ''q'' 600 emptyWorld = emptyWorld"
    by (simp add: lvl five)
  ultimately show ?thesis
    by (simp add: lvl five splitRequest_def)
qed

text \<open>
  The claim C9 as stated makes the threshold and the level the only conditions. With the
  item cap reached, a first page of 600 results at split count 0 enqueues nothing.
\<close>

theorem map_split_cap_counterexample:
  "mapSplittingThreshold cappedEnv \<le> 600
   \<and> int (currentSplitCount firstPageRequest) < maxLevelOf cappedEnv
   \<and> length (splitQueryState cappedEnv ''q'') = 4
   \<and> requestQueue (tryEnqueueMapSplits cappedEnv firstPageRequest ''q'' 600 twoFound)
       = requestQueue twoFound"
  by (simp add: tryEnqueueMapSplits_eq mapSplittingThreshold_def maxLevelOf_def isOverItems_def
      currentSplitCount_def firstPageRequest_def cappedEnv_def demoEnv_def twoFound_def
      emptyWorld_def size_of_def)

section \<open>Properties of \<open>maxZpidsFound\<close>\<close>

lemma foldl_totalCount:
  "foldl (\<lambda>out c. out + totalCount c) a states = a + sum_list (map totalCount states)"
  by (induction states arbitrary: a) simp_all

lemma tryBlock_max: "tryBlock e z s = (t, s') \<Longrightarrow> maxZpidsFound s' = maxZpidsFound s"
  by (auto simp: tryBlock_def Let_def split: if_splits option.splits prod.splits)

lemma catchBlock_max: "catchBlock e z du err s = (r, nw, s') \<Longrightarrow> maxZpidsFound s' = maxZpidsFound s"
  by (auto simp: catchBlock_def addRequest_def split: if_splits)

lemma processZpid_max:
  assumes "processZpid e z du s = (r, s')"
  shows "maxZpidsFound s' = maxZpidsFound s"
proof (cases "isOverItems e s")
  case True
  with assms show ?thesis by (simp add: processZpid_def)
next
  case False
  obtain t s1 where t: "tryBlock e z s = (t, s1)" by (cases "tryBlock e z s")
  note q1 = tryBlock_max [OF t]
  show ?thesis
  proof (cases t)
    case Completed
    with assms False t q1 show ?thesis by (auto simp: processZpid_def sleep_def)
  next
    case Returned
    with assms False t q1 show ?thesis by (auto simp: processZpid_def)
  next
    case (Thrown err)
    obtain r2 nw s2 where c: "catchBlock e z du err s1 = (r2, nw, s2)"
      by (cases "catchBlock e z du err s1") auto
    have "maxZpidsFound s' = maxZpidsFound s2"
      using assms False t Thrown c by (auto simp: processZpid_def sleep_def split: if_splits)
    with catchBlock_max [OF c] q1 show ?thesis by simp
  qed
qed

lemma extractLoop_max: "extractLoop e rs s = (res, s') \<Longrightarrow> maxZpidsFound s' = maxZpidsFound s"
proof (induction rs arbitrary: s)
  case Nil
  then show ?case by simp
next
  case (Cons r rs)
  show ?case
  proof (cases "zpid r = []")
    case True
    with Cons show ?thesis by simp
  next
    case False
    obtain r1 s1 where p: "processZpid e (zpid r) (detailUrl r) s = (r1, s1)"
      by (cases "processZpid e (zpid r) (detailUrl r) s")
    note m1 = processZpid_max [OF p]
    show ?thesis
    proof (cases "\<exists>err. r1 = Inl err \<or> isOverItems e s1")
      case True
      with Cons.prems False p have "s' = s1"
        by (auto split: sum.splits if_splits)
      with m1 show ?thesis by simp
    next
      case False
      with Cons.prems \<open>zpid r \<noteq> []\<close> p have "extractLoop e rs s1 = (res, s')"
        by (auto split: sum.splits if_splits)
      from Cons.IH [OF this] m1 show ?thesis by simp
    qed
  qed
qed

lemma handleZpidsPage_max:
  "handleZpidsPage e zs s = (res, s') \<Longrightarrow> maxZpidsFound s' = maxZpidsFound s"
proof (induction zs arbitrary: s)
  case Nil
  then show ?case by simp
next
  case (Cons z zs)
  obtain r1 s1 where p: "processZpid e z [] s = (r1, s1)"
    by (cases "processZpid e z [] s")
  note m1 = processZpid_max [OF p]
  show ?case
  proof (cases "\<exists>err. r1 = Inl err \<or> isOverItems e s1")
    case True
    with Cons.prems p have "s' = s1"
      by (auto split: sum.splits if_splits)
    with m1 show ?thesis by simp
  next
    case False
    with Cons.prems p have "handleZpidsPage e zs s1 = (res, s')"
      by (auto split: sum.splits if_splits)
    from Cons.IH [OF this] m1 show ?thesis by simp
  qed
qed

lemma processPageQsResults_max:
  "processPageQsResults e rs s = (res, s') \<Longrightarrow> maxZpidsFound s' = maxZpidsFound s"
proof (induction rs arbitrary: s)
  case Nil
  then show ?case by simp
next
  case (Cons r rs)
  show ?case
  proof (cases "zpid r = [] ")
    case True
    with Cons show ?thesis by simp
  next
    case nz: False
    show ?thesis
    proof (cases "isOverItems e s")
      case True
      with Cons.prems nz show ?thesis by simp
    next
      case no: False
      obtain r1 s1 where p: "processZpid e (zpid r) (detailUrl r) s = (r1, s1)"
        by (cases "processZpid e (zpid r) (detailUrl r) s")
      note m1 = processZpid_max [OF p]
      show ?thesis
      proof (cases r1)
        case (Inl err)
        with Cons.prems nz no p have "s' = s1" by simp
        with m1 show ?thesis by simp
      next
        case (Inr u)
        with Cons.prems nz no p have "processPageQsResults e rs s1 = (res, s')" by simp
        from Cons.IH [OF this] m1 show ?thesis by simp
      qed
    qed
  qed
qed

lemma planners_max:
  "maxZpidsFound (tryEnqueueMapSplits e rq q tCount s) = maxZpidsFound s"
  "maxZpidsFound (tryEnqueuePaginationPages e q tCount s) = maxZpidsFound s"
  by (simp_all add: tryEnqueueMapSplits_eq tryEnqueuePaginationPages_eq)

lemma queryStatesLoop_max:
  "queryStatesLoop e rq tCount rs qss s = (res, s') \<Longrightarrow> maxZpidsFound s' = maxZpidsFound s"
proof (induction qss arbitrary: s)
  case Nil
  then show ?case by simp
next
  case (Cons q qss)
  show ?case
  proof (cases "size_of (zpids s) \<ge> maxZpidsFound s")
    case True
    with Cons.prems show ?thesis by simp
  next
    case False
    let ?s1 = "if currentPageOf rq = 1
               then tryEnqueuePaginationPages e (qs q) tCount (tryEnqueueMapSplits e rq (qs q) tCount s)
               else s"
    have s1: "maxZpidsFound ?s1 = maxZpidsFound s"
      by (simp add: planners_max)
    obtain r2 s2 where ex: "extractZpidsFromResults e rs ?s1 = (r2, s2)"
      by (cases "extractZpidsFromResults e rs ?s1")
    then have m2: "maxZpidsFound s2 = maxZpidsFound s"
      using s1 extractLoop_max [of e rs ?s1 r2 s2]
      by (auto simp: extractZpidsFromResults_def split: if_splits)
    show ?thesis
    proof (cases r2)
      case (Inl err)
      with Cons.prems False ex have "s' = s2"
        by (simp add: Let_def)
      with m2 show ?thesis by simp
    next
      case (Inr u)
      with Cons.prems False ex have "queryStatesLoop e rq tCount rs qss s2 = (res, s')"
        by (simp add: Let_def)
      from Cons.IH [OF this] m2 show ?thesis by simp
    qed
  qed
qed

lemma processExtractedQueryStates_max:
  assumes "processExtractedQueryStates e rq qss tCount s = (res, s')"
  shows "maxZpidsFound s' = maxZpidsFound s"
proof -
  obtain sel csu where sel:
    "selectBestMatch (similarity e) (mergeListResultsMapResults qss) (cleanStartUrls s) = (sel, csu)"
    by (cases "selectBestMatch (similarity e) (mergeListResultsMapResults qss) (cleanStartUrls s)")
  show ?thesis
  proof (cases sel)
    case (Inl err)
    with assms sel show ?thesis
      by (auto simp: processExtractedQueryStates_def)
  next
    case (Inr best)
    let ?s4 = "s\<lparr>cleanStartUrls := csu,
               posted := posted s @ [UpdateResults [best]] @
                 map (\<lambda>rSU. NoDetailMatch (su_url rSU)) (reducedStartUrls [best] csu)\<rparr>"
    from assms sel Inr have "queryStatesLoop e rq tCount [result best] qss ?s4 = (res, s')"
      by (simp add: processExtractedQueryStates_def validateQueryStatesResults_def Let_def)
    from queryStatesLoop_max [OF this] show ?thesis by simp
  qed
qed

lemma handleQueryAndSearchPage_max:
  assumes "handleQueryAndSearchPage e rq pg s = (res, s')"
  shows "maxZpidsFound s' = maxZpidsFound s \<or>
         (\<exists>states. extractedQueryStates pg = Some states \<and>
            maxZpidsFound s' = max (sum_list (map totalCount states)) (maxZpidsFound s))"
proof (cases "pageQs pg")
  case None
  with assms show ?thesis
    by (auto simp: handleQueryAndSearchPage_def retireAndRetry_def)
next
  case (Some pq)
  obtain r1 s1 where p: "processPageQsResults e (getPageQsResults pq) s = (r1, s1)"
    by (cases "processPageQsResults e (getPageQsResults pq) s")
  note m1 = processPageQsResults_max [OF p]
  show ?thesis
  proof (cases "r1 = Inr True \<and> extractedQueryStates pg \<noteq> None")
    case False
    with assms Some p m1 show ?thesis
      by (auto simp: handleQueryAndSearchPage_def retireAndRetry_def
          split: sum.splits if_splits option.splits)
  next
    case True
    then obtain states where st: "extractedQueryStates pg = Some states" and r1: "r1 = Inr True"
      by auto
    obtain ex s2 where x: "extractQueryStatesForCurrentPage rq states s1 = (ex, s2)"
      by (cases "extractQueryStatesForCurrentPage rq states s1")
    then have m2: "maxZpidsFound s2 = max (sum_list (map totalCount states)) (maxZpidsFound s)"
      using m1 by (auto simp: extractQueryStatesForCurrentPage_def foldl_totalCount Let_def)
    show ?thesis
    proof (cases "length (ex_state ex) > 0")
      case True
      with assms Some p r1 st x
      have "processExtractedQueryStates e rq (ex_state ex) (ex_totalCount ex) s2 = (res, s')"
        by (simp add: handleQueryAndSearchPage_def)
      from processExtractedQueryStates_max [OF this] m2 st show ?thesis by simp
    next
      case False
      with assms Some p r1 st x have "s' = s2"
        by (simp add: handleQueryAndSearchPage_def)
      with m2 st show ?thesis by simp
    qed
  qed
qed

text \<open>
  C7, as amended. Whenever \<open>_extractQueryStatesForCurrentPage\<close> runs, whatever the
  request's split count and page number, the handler's \<open>maxZpidsFound\<close> becomes the
  maximum of its old value and the sum of the categories' total counts. Nothing else in
  the handling of a query, search or ids page writes it, so over such a pass it never
  decreases.
\<close>

theorem maxZpidsFound_update:
  "maxZpidsFound (snd (extractQueryStatesForCurrentPage rq states s)) =
     max (sum_list (map totalCount states)) (maxZpidsFound s)
   \<and> maxZpidsFound s \<le> maxZpidsFound (snd (extractQueryStatesForCurrentPage rq states s))
   \<and> maxZpidsFound s \<le> maxZpidsFound (snd (handleQueryAndSearchPage e rq pg s))
   \<and> maxZpidsFound (snd (handleZpidsPage e zs s)) = maxZpidsFound s"
proof -
  have "maxZpidsFound s \<le> maxZpidsFound (snd (handleQueryAndSearchPage e rq pg s))"
    using handleQueryAndSearchPage_max [of e rq pg s] by (cases "handleQueryAndSearchPage e rq pg s") auto
  moreover have "maxZpidsFound (snd (handleZpidsPage e zs s)) = maxZpidsFound s"
    using handleZpidsPage_max [of e zs s] by (cases "handleZpidsPage e zs s") auto
  ultimately show ?thesis
    by (simp add: extractQueryStatesForCurrentPage_def foldl_totalCount Let_def)
qed

text \<open>
  The claim C7 as stated lets only an un-split first page change the value. A page of
  split count 1 and page number 2 that reports 50 results raises it from 0 to 50.
\<close>

theorem maxZpidsFound_split_page_counterexample:
  "splitCount splitPageRequest = Some 1 \<and> pageNumber splitPageRequest = Some 2
   \<and> maxZpidsFound emptyWorld = 0
   \<and> maxZpidsFound
        (snd (extractQueryStatesForCurrentPage splitPageRequest fiftyReported emptyWorld)) = 50"
  by (simp add: extractQueryStatesForCurrentPage_def splitPageRequest_def fiftyReported_def
      emptyWorld_def Let_def)

section \<open>Properties of the address matching\<close>

lemma foldl_pick_mem:
  assumes f: "\<And>a b. f a b = (if key a > key b then a else b)"
  shows "foldl f x xs \<in> set (x # xs)"
proof (induction xs rule: rev_induct)
  case Nil
  show ?case by simp
next
  case (snoc y ys)
  have "foldl f x (ys @ [y]) = foldl f x ys \<or> foldl f x (ys @ [y]) = y"
    by (simp add: f)
  with snoc show ?case
    by auto
qed

lemma foldl_pick_max:
  fixes key :: "'a \<Rightarrow> rat"
  assumes f: "\<And>a b. f a b = (if key a > key b then a else b)"
  shows "z \<in> set (x # xs) \<Longrightarrow> key z \<le> key (foldl f x xs)"
proof (induction xs rule: rev_induct)
  case Nil
  then show ?case by simp
next
  case (snoc y ys)
  have step: "key (foldl f x ys) \<le> key (foldl f x (ys @ [y])) \<and> key y \<le> key (foldl f x (ys @ [y]))"
    by (simp add: f)
  show ?case
  proof (cases "z \<in> set (x # ys)")
    case True
    then have "key z \<le> key (foldl f x ys)"
      by (rule snoc.IH)
    with step show ?thesis
      by linarith
  next
    case False
    with snoc.prems have "z = y" by simp
    with step show ?thesis
      by simp
  qed
qed

lemma foldl_pick_last:
  fixes key :: "'a \<Rightarrow> rat"
  assumes f: "\<And>a b. f a b = (if key a > key b then a else b)"
  shows "foldl f x xs = last (filter (\<lambda>y. key y = key (foldl f x xs)) (x # xs))"
proof (induction xs rule: rev_induct)
  case Nil
  show ?case by simp
next
  case (snoc y ys)
  let ?r = "foldl f x ys"
  show ?case
  proof (cases "key ?r > key y")
    case True
    then have r: "foldl f x (ys @ [y]) = ?r"
      by (simp add: f)
    from True have "key y \<noteq> key ?r"
      by simp
    then have "filter (\<lambda>z. key z = key ?r) (x # ys @ [y]) = filter (\<lambda>z. key z = key ?r) (x # ys)"
      by simp
    with snoc.IH show ?thesis
      unfolding r by (simp only:)
  next
    case False
    then have r: "foldl f x (ys @ [y]) = y"
      by (simp add: f)
    have "filter (\<lambda>z. key z = key y) (x # ys @ [y]) = filter (\<lambda>z. key z = key y) (x # ys) @ [y]"
      by simp
    then have "last (filter (\<lambda>z. key z = key y) (x # ys @ [y])) = y"
      by (simp only: last_snoc)
    then show ?thesis
      unfolding r by (rule sym)
  qed
qed


lemma matchLoop_sound:
  "matchLoop sim su rs csu = (frs, csu') \<Longrightarrow> fr \<in> set frs \<Longrightarrow>
   result fr \<in> set rs
   \<and> match fr \<in> set (matchedComparisons sim su (result fr))
   \<and> (\<forall>c \<in> set (matchedComparisons sim su (result fr)).
         rating c \<le> rating (match fr))
   \<and> match fr = last (filter (\<lambda>c. rating c = rating (match fr))
                        (matchedComparisons sim su (result fr)))"
proof (induction rs arbitrary: csu frs csu')
  case Nil
  then show ?case by simp
next
  case (Cons r rs)
  show ?case
  proof (cases "matchedComparisons sim su r")
    case Nil
    with Cons.prems have "matchLoop sim su rs csu = (frs, csu')"
      by simp
    from Cons.IH [OF this Cons.prems(2)] show ?thesis
      by simp
  next
    case (Cons c cs)
    let ?m = "foldl higherRating c cs"
    let ?csu = "csu[index ?m := (csu ! index ?m)\<lparr>matched := True\<rparr>]"
    obtain frs1 csu1 where rest: "matchLoop sim su rs ?csu = (frs1, csu1)"
      by (cases "matchLoop sim su rs ?csu")
    with Cons Cons.prems(1)
    have frs: "frs = \<lparr>result = r, match = ?m, baseUrl = su_url (csu ! index ?m)\<rparr> # frs1"
      by (simp add: Let_def)
    show ?thesis
    proof (cases "fr \<in> set frs1")
      case True
      from Cons.IH [OF rest True] show ?thesis
        by simp
    next
      case False
      with frs Cons.prems(2)
      have fr: "fr = \<lparr>result = r, match = ?m, baseUrl = su_url (csu ! index ?m)\<rparr>"
        by simp
      have a: "?m \<in> set (c # cs)"
        by (rule foldl_pick_mem [OF higherRating_def])
      have b: "\<forall>z \<in> set (c # cs). rating z \<le> rating ?m"
        using foldl_pick_max [of higherRating rating _ c cs, OF higherRating_def] by blast
      have c: "?m = last (filter (\<lambda>z. rating z = rating ?m) (c # cs))"
        by (rule foldl_pick_last [OF higherRating_def])
      have sel: "result fr = r" "match fr = ?m"
        by (simp_all add: fr)
      from a b c show ?thesis
        unfolding sel Cons [symmetric] by simp
    qed
  qed
qed

lemma matchLoop_complete:
  "matchLoop sim su rs csu = (frs, csu') \<Longrightarrow> r \<in> set rs \<Longrightarrow>
   matchedComparisons sim su r \<noteq> [] \<Longrightarrow>
   \<exists>fr \<in> set frs. result fr = r"
proof (induction rs arbitrary: csu frs csu')
  case Nil
  then show ?case by simp
next
  case (Cons r' rs)
  show ?case
  proof (cases "matchedComparisons sim su r'")
    case Nil
    with Cons.prems have ml: "matchLoop sim su rs csu = (frs, csu')" and "r \<in> set rs"
      by auto
    from Cons.IH [OF ml \<open>r \<in> set rs\<close> Cons.prems(3)] show ?thesis .
  next
    case (Cons c cs)
    let ?m = "foldl higherRating c cs"
    let ?csu = "csu[index ?m := (csu ! index ?m)\<lparr>matched := True\<rparr>]"
    obtain frs1 csu1 where rest: "matchLoop sim su rs ?csu = (frs1, csu1)"
      by (cases "matchLoop sim su rs ?csu")
    with Cons Cons.prems(1)
    have frs: "frs = \<lparr>result = r', match = ?m, baseUrl = su_url (csu ! index ?m)\<rparr> # frs1"
      by (simp add: Let_def)
    show ?thesis
    proof (cases "r = r'")
      case True
      with frs show ?thesis by simp
    next
      case False
      with Cons.prems(2) have "r \<in> set rs" by simp
      from Cons.IH [OF rest this Cons.prems(3)] frs show ?thesis
        by auto
    qed
  qed
qed


lemma sortMatch_set:
  "c \<in> set (sortMatch sim a su) \<Longrightarrow>
   index c < length su \<and> member_str c = su ! index c \<and> rating c = sim a (member_str c)"
  by (auto simp: sortMatch_def in_set_enumerate_eq)

lemma reduce_Inr: "reduce f xs = Inr r \<Longrightarrow> \<exists>y ys. xs = y # ys \<and> r = foldl f y ys"
  by (cases xs) (simp_all add: reduce_def)

text \<open>
  C4, as amended. When the selection yields a match for the page, it is a match of one
  of the page's results against one of the targets, with a score of at least 0.9 and the
  same leading token (the text before the first space) as the result's address. No
  qualifying candidate of any result on the page scores higher, so the one match kept is
  the globally best one. Where several qualifying candidates of the result share the
  maximal score, the one that comes last in the order of iteration is selected, and
  where several results share it, the last of them: both reducers keep the previous
  element only if its score is strictly greater.
\<close>

theorem best_match_selection:
  assumes "selectBestMatch sim results csu = (Inr best, csu')"
  shows "result best \<in> set results
       \<and> match best \<in> set (sortMatch sim (address (result best)) (startUrlAddresses csu))
       \<and> rating (match best) \<ge> 9 / 10
       \<and> firstToken (address (result best)) = firstToken (member_str (match best))
       \<and> rating (match best) = sim (address (result best)) (member_str (match best))
       \<and> index (match best) < length csu
       \<and> (\<forall>r \<in> set results. \<forall>c \<in> set (matchedComparisons sim (startUrlAddresses csu) r).
             rating c \<le> rating (match best))
       \<and> match best =
           last (filter (\<lambda>c. rating c = rating (match best))
                   (matchedComparisons sim (startUrlAddresses csu) (result best)))
       \<and> best =
           last (filter (\<lambda>fr. rating (match fr) = rating (match best))
                   (fst (matchLoop sim (startUrlAddresses csu) results csu)))"
proof -
  let ?su = "startUrlAddresses csu"
  obtain frs where ml: "matchLoop sim ?su results csu = (frs, csu')"
    and red: "reduce higherMatch frs = Inr best"
    using assms by (auto simp: selectBestMatch_def split: prod.splits)
  from reduce_Inr [OF red] obtain y ys where frs: "frs = y # ys"
    and best: "best = foldl higherMatch y ys"
    by blast
  have hm: "\<And>a b. higherMatch a b =
      (if rating (match a) > rating (match b) then a else b)"
    by (simp add: higherMatch_def)
  have mem: "best \<in> set frs"
    unfolding best frs by (rule foldl_pick_mem [OF hm])
  have top: "\<And>fr. fr \<in> set frs \<Longrightarrow> rating (match fr) \<le> rating (match best)"
    unfolding best frs by (rule foldl_pick_max [of higherMatch "\<lambda>fr. rating (match fr)", OF hm])
  have lst: "best = last (filter (\<lambda>fr. rating (match fr) = rating (match best)) frs)"
    unfolding best frs by (rule foldl_pick_last [of higherMatch "\<lambda>fr. rating (match fr)", OF hm])
  note snd = matchLoop_sound [OF ml mem]
  from snd have r: "result best \<in> set results"
    and q: "match best \<in> set (matchedComparisons sim ?su (result best))"
    and l: "match best = last (filter (\<lambda>c. rating c = rating (match best))
                (matchedComparisons sim ?su (result best)))"
    by simp_all
  from q have inS: "match best \<in> set (sortMatch sim (address (result best)) ?su)"
    and qual: "qualifies (result best) (match best)"
    by (simp_all add: matchedComparisons_def)
  note sm = sortMatch_set [OF inS]
  have glob: "\<forall>r \<in> set results. \<forall>c \<in> set (matchedComparisons sim ?su r).
             rating c \<le> rating (match best)"
  proof (intro ballI)
    fix r c
    assume r: "r \<in> set results" and c: "c \<in> set (matchedComparisons sim ?su r)"
    then have "matchedComparisons sim ?su r \<noteq> []"
      by auto
    from matchLoop_complete [OF ml r this] obtain fr where fr: "fr \<in> set frs" "result fr = r"
      by blast
    from matchLoop_sound [OF ml fr(1)] c fr(2) have "rating c \<le> rating (match fr)"
      by simp
    also have "\<dots> \<le> rating (match best)"
      using fr(1) by (rule top)
    finally show "rating c \<le> rating (match best)" .
  qed
  from r inS qual sm glob l lst ml show ?thesis
    by (simp add: qualifies_def startUrlAddresses_def)
qed

lemma specTargets_addresses: "startUrlAddresses specTargets = [''100 Main St'', ''999 Pine Rd'']"
  by (simp add: startUrlAddresses_def specTargets_def lastSegment_def dashesToSpaces_def)

lemma mainSt_spec_comparisons:
  "matchedComparisons exactScore [''100 Main St'', ''999 Pine Rd''] mainSt =
     [\<lparr>member_str = ''100 Main St'', index = 0, rating = 1\<rparr>]"
  by (simp add: matchedComparisons_def sortMatch_def qualifies_def
      firstToken_def exactScore_def mainSt_def)

lemma oakAve_spec_comparisons:
  "matchedComparisons exactScore [''100 Main St'', ''999 Pine Rd''] oakAve = []"
  by (simp add: matchedComparisons_def sortMatch_def qualifies_def
      firstToken_def exactScore_def oakAve_def)

lemma specTargets_selection:
  "selectBestMatch exactScore [mainSt, oakAve] specTargets =
     (Inr mainStMatch, specTargets[0 := (specTargets ! 0)\<lparr>matched := True\<rparr>])"
  by (simp add: selectBestMatch_def specTargets_addresses mainSt_spec_comparisons
      oakAve_spec_comparisons reduce_def mainStMatch_def) (simp add: specTargets_def)

theorem best_match_selection_witness:
  "selectBestMatch exactScore [mainSt, oakAve] specTargets =
     (Inr mainStMatch, specTargets[0 := (specTargets ! 0)\<lparr>matched := True\<rparr>])
   \<and> result mainStMatch \<in> set [mainSt, oakAve]
   \<and> rating (match mainStMatch) \<ge> 9 / 10
   \<and> firstToken (address (result mainStMatch)) = firstToken (member_str (match mainStMatch))
   \<and> index (match mainStMatch) < length specTargets
   \<and> mainStMatch =
       last (filter (\<lambda>fr. rating (match fr) = rating (match mainStMatch))
               (fst (matchLoop exactScore (startUrlAddresses specTargets) [mainSt, oakAve]
                       specTargets)))"
  using specTargets_selection best_match_selection [OF specTargets_selection] by blast

text \<open>
  The claim C4 as stated gives a tie to the candidate met first. Two start URLs with the
  same address both score 1 against the result and both qualify; they are iterated in the
  order 0, 1, and the one selected is number 1.
\<close>

lemma twoTargets_addresses: "startUrlAddresses twoTargets = [''100 Main St'', ''100 Main St'']"
  by (simp add: startUrlAddresses_def twoTargets_def lastSegment_def dashesToSpaces_def)

lemma mainSt_comparisons:
  "matchedComparisons exactScore [''100 Main St'', ''100 Main St''] mainSt =
     [\<lparr>member_str = ''100 Main St'', index = 0, rating = 1\<rparr>,
      \<lparr>member_str = ''100 Main St'', index = 1, rating = 1\<rparr>]"
  by (simp add: matchedComparisons_def sortMatch_def qualifies_def
      firstToken_def exactScore_def mainSt_def)

theorem tie_counterexample:
  "matchedComparisons exactScore (startUrlAddresses twoTargets) mainSt =
     [\<lparr>member_str = ''100 Main St'', index = 0, rating = 1\<rparr>,
      \<lparr>member_str = ''100 Main St'', index = 1, rating = 1\<rparr>]
   \<and> fst (selectBestMatch exactScore [mainSt] twoTargets) =
       Inr \<lparr>result = mainSt,
            match = \<lparr>member_str = ''100 Main St'', index = 1, rating = 1\<rparr>,
            baseUrl = ''https://www.zillow.com/homedetails/100-Main-St''\<rparr>"
  by (simp add: selectBestMatch_def twoTargets_addresses mainSt_comparisons reduce_def
      higherRating_def) (simp add: twoTargets_def)

section \<open>Properties of \<open>_processExtractedQueryStates\<close>\<close>

lemma tryBlock_queried:
  "tryBlock e z s = (t, s') \<Longrightarrow> queried s' = queried s \<or> queried s' = queried s @ [z]"
  by (auto simp: tryBlock_def Let_def split: if_splits option.splits prod.splits)

lemma catchBlock_queried: "catchBlock e z du err s = (r, nw, s') \<Longrightarrow> queried s' = queried s"
  by (auto simp: catchBlock_def addRequest_def split: if_splits)

lemma processZpid_queried:
  assumes "processZpid e z du s = (r, s')"
  shows "queried s' = queried s \<or> queried s' = queried s @ [z]"
proof (cases "isOverItems e s")
  case True
  with assms show ?thesis by (simp add: processZpid_def)
next
  case False
  obtain t s1 where t: "tryBlock e z s = (t, s1)" by (cases "tryBlock e z s")
  note q1 = tryBlock_queried [OF t]
  show ?thesis
  proof (cases t)
    case Completed
    with assms False t q1 show ?thesis by (auto simp: processZpid_def sleep_def)
  next
    case Returned
    with assms False t q1 show ?thesis by (auto simp: processZpid_def)
  next
    case (Thrown err)
    obtain r2 nw s2 where c: "catchBlock e z du err s1 = (r2, nw, s2)"
      by (cases "catchBlock e z du err s1") auto
    have "queried s' = queried s2"
      using assms False t Thrown c by (auto simp: processZpid_def sleep_def split: if_splits)
    with catchBlock_queried [OF c] q1 show ?thesis by auto
  qed
qed

lemma extract_single_queried:
  assumes "extractZpidsFromResults e [r] s = (res, s')"
  shows "\<exists>k \<le> 1. queried s' = queried s @ replicate k (zpid r)"
proof (cases "zpid r = []")
  case True
  with assms show ?thesis
    by (auto simp: extractZpidsFromResults_def)
next
  case False
  obtain r1 s1 where p: "processZpid e (zpid r) (detailUrl r) s = (r1, s1)"
    by (cases "processZpid e (zpid r) (detailUrl r) s")
  with assms False have "s' = s1"
    by (auto simp: extractZpidsFromResults_def split: sum.splits if_splits)
  with processZpid_queried [OF p] show ?thesis
  proof (elim disjE)
    assume "queried s1 = queried s" and "s' = s1"
    then have "queried s' = queried s @ replicate 0 (zpid r)" by simp
    then show ?thesis by blast
  next
    assume "queried s1 = queried s @ [zpid r]" and "s' = s1"
    then have "queried s' = queried s @ replicate 1 (zpid r)" by simp
    then show ?thesis by blast
  qed
qed

lemma planners_queried:
  "queried (tryEnqueueMapSplits e rq q tCount s) = queried s"
  "queried (tryEnqueuePaginationPages e q tCount s) = queried s"
  by (simp_all add: tryEnqueueMapSplits_eq tryEnqueuePaginationPages_eq)

lemma queryStatesLoop_queried:
  "queryStatesLoop e rq tCount [r] qss s = (res, s') \<Longrightarrow>
   \<exists>n \<le> length qss. queried s' = queried s @ replicate n (zpid r)"
proof (induction qss arbitrary: s)
  case Nil
  then have "queried s' = queried s @ replicate 0 (zpid r)" by simp
  then show ?case by blast
next
  case (Cons q qss)
  show ?case
  proof (cases "size_of (zpids s) \<ge> maxZpidsFound s")
    case True
    with Cons.prems have "queried s' = queried s @ replicate 0 (zpid r)" by simp
    then show ?thesis by blast
  next
    case False
    let ?s1 = "if currentPageOf rq = 1
               then tryEnqueuePaginationPages e (qs q) tCount (tryEnqueueMapSplits e rq (qs q) tCount s)
               else s"
    have s1: "queried ?s1 = queried s"
      by (simp add: planners_queried)
    obtain r2 s2 where ex: "extractZpidsFromResults e [r] ?s1 = (r2, s2)"
      by (cases "extractZpidsFromResults e [r] ?s1")
    from extract_single_queried [OF ex] s1 obtain k where k: "k \<le> 1"
      and q2: "queried s2 = queried s @ replicate k (zpid r)"
      by auto
    show ?thesis
    proof (cases r2)
      case (Inl err)
      with Cons.prems False ex have "s' = s2"
        by (simp add: Let_def)
      with q2 k have "k \<le> length (q # qss) \<and> queried s' = queried s @ replicate k (zpid r)"
        by simp
      then show ?thesis by blast
    next
      case (Inr u)
      with Cons.prems False ex have "queryStatesLoop e rq tCount [r] qss s2 = (res, s')"
        by (simp add: Let_def)
      from Cons.IH [OF this] obtain n where n: "n \<le> length qss"
        and q': "queried s' = queried s2 @ replicate n (zpid r)"
        by blast
      from q' q2 have "queried s' = queried s @ replicate (k + n) (zpid r)"
        by (simp add: replicate_add)
      moreover from k n have "k + n \<le> length (q # qss)" by simp
      ultimately show ?thesis by blast
    qed
  qed
qed

text \<open>
  C2, as amended. When the selection yields a best match for the page,
  \<open>_processExtractedQueryStates\<close> runs the per-entity extraction on that one record only:
  every query it issues is for the id of the best match, at most one per query state.
  The other merged result records are not extracted there.
\<close>

theorem extraction_of_best_match_only:
  assumes "selectBestMatch (similarity e) (mergeListResultsMapResults qss) (cleanStartUrls s)
             = (Inr best, csu)"
  shows "\<exists>n \<le> length qss.
           queried (snd (processExtractedQueryStates e rq qss tCount s)) =
             queried s @ replicate n (zpid (result best))"
proof -
  let ?s4 = "s\<lparr>cleanStartUrls := csu,
               posted := posted s @ [UpdateResults [best]] @
                 map (\<lambda>rSU. NoDetailMatch (su_url rSU)) (reducedStartUrls [best] csu)\<rparr>"
  have run: "processExtractedQueryStates e rq qss tCount s =
               queryStatesLoop e rq tCount [result best] qss ?s4"
    using assms
    by (simp add: processExtractedQueryStates_def validateQueryStatesResults_def Let_def)
  obtain res s' where l: "queryStatesLoop e rq tCount [result best] qss ?s4 = (res, s')"
    by (cases "queryStatesLoop e rq tCount [result best] qss ?s4")
  from queryStatesLoop_queried [OF l] run l show ?thesis
    by simp
qed

lemma mainStTarget_addresses: "startUrlAddresses mainStTarget = [''100 Main St'']"
  by (simp add: startUrlAddresses_def mainStTarget_def lastSegment_def dashesToSpaces_def)

lemma one_target_comparisons:
  "matchedComparisons exactScore [''100 Main St''] mainSt =
     [\<lparr>member_str = ''100 Main St'', index = 0, rating = 1\<rparr>]"
  "matchedComparisons exactScore [''100 Main St''] oakAve = []"
  by (simp_all add: matchedComparisons_def sortMatch_def qualifies_def
      firstToken_def exactScore_def mainSt_def oakAve_def)

lemma two_results_merged: "mergeListResultsMapResults [twoResultsState] = [mainSt, oakAve]"
  by (simp add: mergeListResultsMapResults_def twoResultsState_def noResults_def)

lemma one_target_selection:
  "selectBestMatch (similarity demoEnv) (mergeListResultsMapResults [twoResultsState])
     (cleanStartUrls twoExpected) =
     (Inr mainStMatch,
      [\<lparr>su_url = ''https://www.zillow.com/homes/100-Main-St'', matched = True\<rparr>])"
proof -
  have "similarity demoEnv = exactScore" "cleanStartUrls twoExpected = mainStTarget"
    by (simp_all add: demoEnv_def twoExpected_def)
  then show ?thesis
    by (simp add: selectBestMatch_def two_results_merged mainStTarget_addresses
        one_target_comparisons reduce_def mainStMatch_def) (simp add: mainStTarget_def)
qed

lemma one_match_run:
  "processExtractedQueryStates demoEnv firstPageRequest [twoResultsState] 2 twoExpected =
     (Inr (), oneExtracted)"
proof -
  let ?csu = "[\<lparr>su_url = ''https://www.zillow.com/homes/100-Main-St'', matched = True\<rparr>]"
  let ?s4 = "twoExpected\<lparr>cleanStartUrls := ?csu, posted := [UpdateResults [mainStMatch]]\<rparr>"
  have r: "reducedStartUrls [mainStMatch] ?csu = []"
    by (simp add: reducedStartUrls_def)
  have p: "posted twoExpected = []"
    by (simp add: twoExpected_def emptyWorld_def)
  have z: "result mainStMatch = mainSt"
    by (simp add: mainStMatch_def)
  have step1: "processExtractedQueryStates demoEnv firstPageRequest [twoResultsState] 2 twoExpected =
          queryStatesLoop demoEnv firstPageRequest 2 [mainSt] [twoResultsState] ?s4"
    by (simp add: processExtractedQueryStates_def one_target_selection r p z
        validateQueryStatesResults_def)
  have env: "maxItems demoEnv = None" "mapSplittingThreshold demoEnv = 500"
    "PAGES_LIMIT demoEnv = 20" "isNumeric demoEnv ''1''"
    "queryZpid demoEnv 0 ''1'' = Some ''1''"
    "extendOutputFunction demoEnv ''1'' ''1'' [] = (True, [''1''])"
    "\<And>ss. isUsable demoEnv ss = (markedBad ss = 0 \<and> retired ss = False)"
    by (simp_all add: demoEnv_def mapSplittingThreshold_def digitString_def)
  have pg: "currentPageOf firstPageRequest = 1"
    by (simp add: currentPageOf_def firstPageRequest_def)
  have step2: "queryStatesLoop demoEnv firstPageRequest 2 [mainSt] [twoResultsState] ?s4 =
          (Inr (), oneExtracted)"
    by (simp add: env pg mainSt_def
        tryEnqueueMapSplits_eq tryEnqueuePaginationPages_eq
        extractZpidsFromResults_def processZpid_def tryBlock_def isOverItems_def has_def
        add_def sleep_def size_of_def twoExpected_def oneExtracted_def emptyWorld_def
        freshSession_def)
  from step1 step2 show ?thesis
    by (simp only:)
qed

theorem extraction_of_best_match_only_witness:
  "selectBestMatch (similarity demoEnv) (mergeListResultsMapResults [twoResultsState])
     (cleanStartUrls twoExpected) =
     (Inr mainStMatch,
      [\<lparr>su_url = ''https://www.zillow.com/homes/100-Main-St'', matched = True\<rparr>])
   \<and> queried (snd (processExtractedQueryStates demoEnv firstPageRequest [twoResultsState] 2
                     twoExpected)) = [''1'']
   \<and> (\<exists>n \<le> length [twoResultsState].
         queried (snd (processExtractedQueryStates demoEnv firstPageRequest [twoResultsState] 2
                         twoExpected)) =
           queried twoExpected @ replicate n (zpid (result mainStMatch)))"
proof -
  have "queried (snd (processExtractedQueryStates demoEnv firstPageRequest [twoResultsState] 2
                     twoExpected)) = [''1'']"
    by (simp add: one_match_run oneExtracted_def emptyWorld_def)
  with one_target_selection
    extraction_of_best_match_only [OF one_target_selection, of firstPageRequest 2]
  show ?thesis
    by blast
qed

text \<open>
  The claim C2 as stated has every merged result record extracted. The merged list of
  this page holds the records of ids 1 and 2; the run ends normally with the single query
  for id 1, below the cap and below \<open>maxZpidsFound\<close>.
\<close>

theorem all_results_counterexample:
  "mergeListResultsMapResults [twoResultsState] = [mainSt, oakAve]
   \<and> zpid oakAve = ''2''
   \<and> processExtractedQueryStates demoEnv firstPageRequest [twoResultsState] 2 twoExpected =
       (Inr (), oneExtracted)
   \<and> queried oneExtracted = [''1'']
   \<and> isOverItems demoEnv oneExtracted = False
   \<and> size_of (zpids oneExtracted) < maxZpidsFound oneExtracted"
proof -
  have "zpid oakAve = ''2''"
    by (simp add: oakAve_def)
  moreover have "queried oneExtracted = [''1'']"
    by (simp add: oneExtracted_def)
  moreover have "isOverItems demoEnv oneExtracted = False"
    by (simp add: isOverItems_def demoEnv_def)
  moreover have "size_of (zpids oneExtracted) < maxZpidsFound oneExtracted"
    by (simp add: oneExtracted_def size_of_def)
  ultimately show ?thesis
    using two_results_merged one_match_run by (simp only: simp_thms)
qed

section \<open>Pages without a match\<close>

lemma no_results_throws:
  "mergeListResultsMapResults qss = [] \<Longrightarrow>
   processExtractedQueryStates e rq qss tCount s = (Inl ReduceOfEmptyArray, s)"
  by (simp add: processExtractedQueryStates_def selectBestMatch_def reduce_def)

lemma validate_reached_with_total:
  "validateQueryStatesResults [] 50 s = (Inl (NoMapResults 50), s\<lparr>session := retire (session s)\<rparr>)"
  "validateQueryStatesResults [] 0 s = (Inr False, s)"
  "validateQueryStatesResults [x] tCount s = (Inr True, s)"
  by (simp_all add: validateQueryStatesResults_def)

text \<open>
  C3. A page whose query states hold no result record while the reported total is 50: the
  reduction of the empty \<open>filteredResults\<close> throws its \<open>TypeError\<close> before
  \<open>_validateQueryStatesResults\<close> is reached, and the session is not retired. With a
  reported total of 0 the same error is thrown, where the claim has the branch end
  without error.
\<close>

theorem anomalous_count_run:
  "handleQueryAndSearchPage demoEnv firstPageRequest anomalousPage oneTargetWorld =
     (Inl ReduceOfEmptyArray, oneTargetWorld\<lparr>maxZpidsFound := 50\<rparr>)
   \<and> retired (session (oneTargetWorld\<lparr>maxZpidsFound := 50\<rparr>)) = False
   \<and> handleQueryAndSearchPage demoEnv firstPageRequest emptyPage oneTargetWorld =
       (Inl ReduceOfEmptyArray, oneTargetWorld)"
proof -
  have m1: "mergeListResultsMapResults (map state fiftyReported) = []"
    and m2: "mergeListResultsMapResults (map state zeroReported) = []"
    by (simp_all add: mergeListResultsMapResults_def fiftyReported_def zeroReported_def
        emptyCats_def noResults_def)
  have p: "getPageQsResults emptyCats = []"
    by (simp add: getPageQsResults_def emptyCats_def noResults_def)
  have l: "length (map state fiftyReported) > 0" "length (map state zeroReported) > 0"
    by (simp_all add: fiftyReported_def zeroReported_def)
  have t: "foldl (\<lambda>out c. out + totalCount c) 0 fiftyReported = 50"
     "foldl (\<lambda>out c. out + totalCount c) 0 zeroReported = 0"
    by (simp_all add: fiftyReported_def zeroReported_def)
  have w: "maxZpidsFound oneTargetWorld = 0" "retired (session oneTargetWorld) = False"
    by (simp_all add: oneTargetWorld_def emptyWorld_def freshSession_def)
  show ?thesis
    using l
    by (simp add: handleQueryAndSearchPage_def anomalousPage_def emptyPage_def p
        extractQueryStatesForCurrentPage_def Let_def t w no_results_throws [OF m1]
        no_results_throws [OF m2])
qed

lemma pineRd_addresses: "startUrlAddresses pineRdTarget = [''999 Pine Rd'']"
  by (simp add: startUrlAddresses_def pineRdTarget_def lastSegment_def dashesToSpaces_def)

lemma oakAve_pine_comparisons: "matchedComparisons exactScore [''999 Pine Rd''] oakAve = []"
  by (simp add: matchedComparisons_def sortMatch_def qualifies_def
      firstToken_def exactScore_def oakAve_def)

text \<open>
  C5. A page whose only result, at 200 Oak Ave, matches no target (the only target is
  999 Pine Rd): the selection step throws the \<open>TypeError\<close> of reducing an empty array,
  nothing is reported and the page handling does not continue.
\<close>

theorem no_match_run:
  "mergeListResultsMapResults [oakOnlyState] = [oakAve]
   \<and> processExtractedQueryStates demoEnv firstPageRequest [oakOnlyState] 1 pineWorld =
       (Inl ReduceOfEmptyArray, pineWorld)
   \<and> posted pineWorld = []"
proof -
  have m: "mergeListResultsMapResults [oakOnlyState] = [oakAve]"
    by (simp add: mergeListResultsMapResults_def oakOnlyState_def noResults_def)
  have c: "cleanStartUrls pineWorld = pineRdTarget" "similarity demoEnv = exactScore"
    "posted pineWorld = []"
    by (simp_all add: pineWorld_def demoEnv_def emptyWorld_def)
  have "pineWorld\<lparr>cleanStartUrls := pineRdTarget\<rparr> = pineWorld"
    by (simp add: pineWorld_def)
  then show ?thesis
    by (simp add: processExtractedQueryStates_def selectBestMatch_def m c pineRd_addresses
        oakAve_pine_comparisons reduce_def)
qed

end
